theory Spec2Isabelle
  imports Complex_Main
begin

section \<open>JavaScript values used by the viewer\<close>

text \<open>
  A \<open>Map\<close> keeps its entries in insertion order: \<open>set\<close> on a present key replaces the
  value in place, on an absent key appends; \<open>keys().next().value\<close> is the first key.
\<close>

type_synonym ('k, 'v) jsmap = "('k \<times> 'v) list"

definition Map_get :: "('k, 'v) jsmap \<Rightarrow> 'k \<Rightarrow> 'v option" where
  "Map_get m k = map_of m k"

definition Map_has :: "('k, 'v) jsmap \<Rightarrow> 'k \<Rightarrow> bool" where
  "Map_has m k \<longleftrightarrow> map_of m k \<noteq> None"

definition Map_set :: "('k, 'v) jsmap \<Rightarrow> 'k \<Rightarrow> 'v \<Rightarrow> ('k, 'v) jsmap" where
  "Map_set m k v =
     (if Map_has m k then map (\<lambda>e. if fst e = k then (k, v) else e) m else m @ [(k, v)])"

definition Map_delete :: "('k, 'v) jsmap \<Rightarrow> 'k \<Rightarrow> ('k, 'v) jsmap" where
  "Map_delete m k = filter (\<lambda>e. fst e \<noteq> k) m"

definition Map_keys :: "('k, 'v) jsmap \<Rightarrow> 'k list" where
  "Map_keys m = map fst m"

definition Map_size :: "('k, 'v) jsmap \<Rightarrow> nat" where
  "Map_size m = length m"

text \<open>
  A number is a real or \<open>NaN\<close>; every comparison with \<open>NaN\<close> is false, and
  \<open>Math.min\<close>, \<open>Math.max\<close> and the product return \<open>NaN\<close> when an argument is
  \<open>NaN\<close>. The product is the product of reals: the rounding of doubles and the
  infinities are not modelled, so \<open>js_times\<close> agrees with the product of doubles only
  where that product is exact (as 1 times 1.25 is, the one product evaluated below).
\<close>

datatype jsnum = Num real | NaN

fun js_lt :: "jsnum \<Rightarrow> jsnum \<Rightarrow> bool" where
  "js_lt (Num x) (Num y) = (x < y)"
| "js_lt _ _ = False"

definition js_gt :: "jsnum \<Rightarrow> jsnum \<Rightarrow> bool" where
  "js_gt a b = js_lt b a"

fun Math_min :: "jsnum \<Rightarrow> jsnum \<Rightarrow> jsnum" where
  "Math_min (Num x) (Num y) = Num (min x y)"
| "Math_min _ _ = NaN"

fun Math_max :: "jsnum \<Rightarrow> jsnum \<Rightarrow> jsnum" where
  "Math_max (Num x) (Num y) = Num (max x y)"
| "Math_max _ _ = NaN"

fun js_times :: "jsnum \<Rightarrow> jsnum \<Rightarrow> jsnum" where
  "js_times (Num x) (Num y) = Num (x * y)"
| "js_times _ _ = NaN"

text \<open>
  Strings are lists of code units below 256. \<open>trim\<close> removes the white space and line
  terminators of that range at both ends; \<open>String_includes\<close> is the substring test.
\<close>

definition isWhiteSpace :: "char \<Rightarrow> bool" where
  "isWhiteSpace c \<longleftrightarrow> of_char c \<in> {9, 10, 11, 12, 13, 32, 160 :: nat}"

definition trimStart :: "string \<Rightarrow> string" where
  "trimStart s = dropWhile isWhiteSpace s"

definition trim :: "string \<Rightarrow> string" where
  "trim s = rev (dropWhile isWhiteSpace (rev (dropWhile isWhiteSpace s)))"

fun startsWith :: "string \<Rightarrow> string \<Rightarrow> bool" where
  "startsWith s [] = True"
| "startsWith [] (c # t) = False"
| "startsWith (d # s) (c # t) = (d = c \<and> startsWith s t)"

fun String_includes :: "string \<Rightarrow> string \<Rightarrow> bool" where
  "String_includes [] t = (t = [])"
| "String_includes (c # s) t = (startsWith (c # s) t \<or> String_includes s t)"

section \<open>The PDF viewer (class PDFViewer in js/pdfViewer.js)\<close>

text \<open>
  A document of the PDF library is an object with an identity, a page count and an optional
  fingerprint. The viewer holds the pager state, the document cache (path to entry) and the
  rendered-page cache. The key of a rendered page is the template string
  \<open>fingerprint_page_scale\<close>; it is kept as the triple of its parts.

  What the viewer does to the outside is recorded in \<open>events\<close>, oldest first: documents
  destroyed, requests sent, pages drawn from the cache or rendered, errors shown.
  Every method runs to its end before the next one starts, and reads the clock once.
\<close>

record doc =
  doc_id :: nat
  numPages :: int
  fingerprint :: "string option"

type_synonym cacheKey = "string \<times> int \<times> jsnum"

datatype pdf_error =
  InvalidPath | LibraryMissing | NetworkError | AccessError
  | NotFound | Forbidden | ServerError | Unavailable | HttpError nat
  | InvalidPDF | MissingPDF | UnexpectedResponse | LoadTimeout | LoadFailed string
  | NoDocument | NoPages | RenderFailed

datatype event =
  Destroyed doc | HeadRequest string | GetDocument string
  | DrawnFromCache cacheKey | Rendered cacheKey | ErrorShown pdf_error

record pdfEntry =
  document :: doc
  loadTime :: int
  lastAccess :: int
  accessCount :: nat
  cachedTotalPages :: int

record 'img pageEntry =
  imageData :: 'img
  timestamp :: int

record 'img PDFViewer =
  container :: bool
  pdfDocument :: "doc option"
  currentPage :: int
  totalPages :: int
  scale :: jsnum
  isLoading :: bool
  pdfCache :: "(string, pdfEntry) jsmap"
  maxPdfCacheSize :: nat
  renderedPageCache :: "(cacheKey, 'img pageEntry) jsmap"
  maxPageCacheSize :: nat
  events :: "event list"

datatype head_result = FetchRejected string | Response bool nat

datatype load_result = Rejected string string | Resolved "doc option"

record 'img env =
  now :: int
  pdfjsLib :: bool
  fetchHead :: "string \<Rightarrow> head_result"
  getDocument :: "string \<Rightarrow> load_result"
  renderCanvas :: "doc \<Rightarrow> int \<Rightarrow> jsnum \<Rightarrow> 'img option"

definition PDFViewer_constructor :: "bool \<Rightarrow> 'img PDFViewer" where
  "PDFViewer_constructor c =
     \<lparr>container = c, pdfDocument = None, currentPage = 1, totalPages = 0, scale = Num 1,
      isLoading = False, pdfCache = [], maxPdfCacheSize = 5, renderedPageCache = [],
      maxPageCacheSize = 20, events = []\<rparr>"

definition emit :: "event \<Rightarrow> 'img PDFViewer \<Rightarrow> 'img PDFViewer" where
  "emit e v = v\<lparr>events := events v @ [e]\<rparr>"

definition showError :: "pdf_error \<Rightarrow> 'img PDFViewer \<Rightarrow> 'img PDFViewer" where
  "showError e v = emit (ErrorShown e) v"

subsection \<open>The two caches\<close>

text \<open>The loop of \<open>cachePDF\<close> that looks for the entry with the smallest
  \<open>lastAccess\<close>, starting from the current time.\<close>

fun findOldest ::
  "(string, pdfEntry) jsmap \<Rightarrow> string option \<Rightarrow> int \<Rightarrow> string option" where
  "findOldest [] oldestPath oldestTime = oldestPath"
| "findOldest ((path, data) # rest) oldestPath oldestTime =
     (if lastAccess data < oldestTime then findOldest rest (Some path) (lastAccess data)
      else findOldest rest oldestPath oldestTime)"

text \<open>\<open>if (oldestPath)\<close>: null and the empty string are falsy.\<close>

definition truthy :: "string option \<Rightarrow> bool" where
  "truthy p \<longleftrightarrow> (case p of None \<Rightarrow> False | Some k \<Rightarrow> k \<noteq> [])"

definition cachePDF :: "int \<Rightarrow> string \<Rightarrow> doc \<Rightarrow> 'img PDFViewer \<Rightarrow> 'img PDFViewer" where
  "cachePDF t pdfPath pdfDoc v =
     (let v1 =
        (if Map_size (pdfCache v) \<ge> maxPdfCacheSize v then
           (let oldestPath = findOldest (pdfCache v) None t in
            if truthy oldestPath then
              (case Map_get (pdfCache v) (the oldestPath) of
                 Some removedData \<Rightarrow>
                   (emit (Destroyed (document removedData)) v)
                     \<lparr>pdfCache := Map_delete (pdfCache v) (the oldestPath)\<rparr>
               | None \<Rightarrow> v\<lparr>pdfCache := Map_delete (pdfCache v) (the oldestPath)\<rparr>)
            else v)
         else v)
      in v1\<lparr>pdfCache := Map_set (pdfCache v1) pdfPath
            \<lparr>document = pdfDoc, loadTime = t, lastAccess = t, accessCount = 1,
             cachedTotalPages = numPages pdfDoc\<rparr>\<rparr>)"

definition cacheRenderedPage ::
  "int \<Rightarrow> cacheKey \<Rightarrow> 'img \<Rightarrow> 'img PDFViewer \<Rightarrow> 'img PDFViewer" where
  "cacheRenderedPage t cacheKey img v =
     (let c1 =
        (if Map_size (renderedPageCache v) \<ge> maxPageCacheSize v then
           (case renderedPageCache v of
              [] \<Rightarrow> renderedPageCache v
            | (firstKey, _) # _ \<Rightarrow> Map_delete (renderedPageCache v) firstKey)
         else renderedPageCache v)
      in v\<lparr>renderedPageCache := Map_set c1 cacheKey \<lparr>imageData = img, timestamp = t\<rparr>\<rparr>)"

definition getCachedRenderedPage ::
  "int \<Rightarrow> cacheKey \<Rightarrow> 'img PDFViewer \<Rightarrow> 'img option \<times> 'img PDFViewer" where
  "getCachedRenderedPage t cacheKey v =
     (case Map_get (renderedPageCache v) cacheKey of
        Some cached \<Rightarrow>
          (let maxAge = 5 * 60 * 1000 in
           if t - timestamp cached < maxAge then (Some (imageData cached), v)
           else (None, v\<lparr>renderedPageCache := Map_delete (renderedPageCache v) cacheKey\<rparr>))
      | None \<Rightarrow> (None, v))"

definition clearPdfCache :: "'img PDFViewer \<Rightarrow> 'img PDFViewer" where
  "clearPdfCache v =
     v\<lparr>events := events v @ map (\<lambda>e. Destroyed (document (snd e))) (pdfCache v),
       pdfCache := [], renderedPageCache := []\<rparr>"

text \<open>The two loops of \<open>performPdfMemoryCleanup\<close>, over the entries in order.\<close>

fun cleanPdfs :: "int \<Rightarrow> (string, pdfEntry) jsmap \<Rightarrow> 'img PDFViewer \<Rightarrow> 'img PDFViewer" where
  "cleanPdfs t [] v = v"
| "cleanPdfs t ((path, data) # rest) v =
     (let maxAge = 15 * 60 * 1000; minAccessCount = 2; age = t - lastAccess data in
      if age > maxAge \<and> accessCount data < minAccessCount
      then cleanPdfs t rest
             ((emit (Destroyed (document data)) v)\<lparr>pdfCache := Map_delete (pdfCache v) path\<rparr>)
      else cleanPdfs t rest v)"

fun cleanPages ::
  "int \<Rightarrow> (cacheKey, 'img pageEntry) jsmap \<Rightarrow> 'img PDFViewer \<Rightarrow> 'img PDFViewer" where
  "cleanPages t [] v = v"
| "cleanPages t ((key, data) # rest) v =
     (let pageMaxAge = 5 * 60 * 1000; age = t - timestamp data in
      if age > pageMaxAge
      then cleanPages t rest (v\<lparr>renderedPageCache := Map_delete (renderedPageCache v) key\<rparr>)
      else cleanPages t rest v)"

definition performPdfMemoryCleanup :: "int \<Rightarrow> 'img PDFViewer \<Rightarrow> 'img PDFViewer" where
  "performPdfMemoryCleanup t v =
     (let v1 = cleanPdfs t (pdfCache v) v in cleanPages t (renderedPageCache v1) v1)"

subsection \<open>Rendering, navigation and zoom\<close>

definition keyFingerprint :: "doc \<Rightarrow> string" where
  "keyFingerprint d =
     (case fingerprint d of None \<Rightarrow> ''unknown''
      | Some f \<Rightarrow> if f = [] then ''unknown'' else f)"

definition renderPage :: "'img env \<Rightarrow> int \<Rightarrow> 'img PDFViewer \<Rightarrow> 'img PDFViewer" where
  "renderPage env pageNumber v =
     (case pdfDocument v of
        None \<Rightarrow> v
      | Some d \<Rightarrow>
          if pageNumber < 1 \<or> pageNumber > totalPages v then v
          else
            (let cacheKey = (keyFingerprint d, pageNumber, scale v);
                 (cachedPage, v1) = getCachedRenderedPage (now env) cacheKey v
             in case cachedPage of
                  Some img \<Rightarrow> (emit (DrawnFromCache cacheKey) v1)\<lparr>currentPage := pageNumber\<rparr>
                | None \<Rightarrow>
                    (case renderCanvas env d pageNumber (scale v) of
                       None \<Rightarrow> showError RenderFailed v1
                     | Some img \<Rightarrow>
                         (cacheRenderedPage (now env) cacheKey img (emit (Rendered cacheKey) v1))
                           \<lparr>currentPage := pageNumber\<rparr>)))"

definition nextPage :: "'img env \<Rightarrow> 'img PDFViewer \<Rightarrow> 'img PDFViewer" where
  "nextPage env v =
     (if pdfDocument v = None \<or> currentPage v \<ge> totalPages v then v
      else renderPage env (currentPage v + 1) v)"

definition previousPage :: "'img env \<Rightarrow> 'img PDFViewer \<Rightarrow> 'img PDFViewer" where
  "previousPage env v =
     (if pdfDocument v = None \<or> currentPage v \<le> 1 then v
      else renderPage env (currentPage v - 1) v)"

definition goToPage :: "'img env \<Rightarrow> int \<Rightarrow> 'img PDFViewer \<Rightarrow> 'img PDFViewer" where
  "goToPage env pageNumber v =
     (if pdfDocument v = None \<or> pageNumber < 1 \<or> pageNumber > totalPages v then v
      else renderPage env pageNumber v)"

definition setZoom :: "'img env \<Rightarrow> jsnum \<Rightarrow> 'img PDFViewer \<Rightarrow> 'img PDFViewer" where
  "setZoom env newScale v =
     (if pdfDocument v = None \<or> js_lt newScale (Num 0.5) \<or> js_gt newScale (Num 3.0) then v
      else renderPage env (currentPage v) (v\<lparr>scale := newScale\<rparr>))"

definition zoomIn :: "'img env \<Rightarrow> 'img PDFViewer \<Rightarrow> 'img PDFViewer" where
  "zoomIn env v =
     (if pdfDocument v = None then v
      else setZoom env (Math_min (js_times (scale v) (Num 1.25)) (Num 3.0)) v)"

definition zoomOut :: "'img env \<Rightarrow> 'img PDFViewer \<Rightarrow> 'img PDFViewer" where
  "zoomOut env v =
     (if pdfDocument v = None then v
      else setZoom env (Math_max (js_times (scale v) (Num 0.8)) (Num 0.5)) v)"

text \<open>\<open>resetZoom\<close> fetches the current page from the document, which can fail: then the
  call fails and nothing changes (\<open>ratio\<close> is \<open>None\<close>). Otherwise \<open>ratio\<close> is the
  quotient of the container width (less the padding) by the page width, computed from the
  layout; it is \<open>NaN\<close> when both are zero.\<close>

definition resetZoom :: "'img env \<Rightarrow> jsnum option \<Rightarrow> 'img PDFViewer \<Rightarrow> 'img PDFViewer" where
  "resetZoom env ratio v =
     (if pdfDocument v = None then v
      else (case ratio of
              None \<Rightarrow> v
            | Some r \<Rightarrow> setZoom env (Math_min r (Num 2.0)) v))"

text \<open>The range of the zoom factor as the documentation of \<open>setZoom\<close> gives it
  (0.5 to 3.0).\<close>

definition scaleInRange :: "jsnum \<Rightarrow> bool" where
  "scaleInRange s \<longleftrightarrow> (case s of Num x \<Rightarrow> 0.5 \<le> x \<and> x \<le> 3.0 | NaN \<Rightarrow> False)"

text \<open>
  \<open>hidePDF\<close> removes a style class at once and leaves the rest to a timer of 300 ms: it
  changes nothing of the state kept here, and \<open>hidePDF v\<close> says whether it sets the timer.
  \<open>hidePDFTimeout\<close> is the body of that timer, which runs after whatever was called in
  the meantime.
\<close>

definition hidePDF :: "'img PDFViewer \<Rightarrow> bool" where
  "hidePDF v \<longleftrightarrow> container v"

definition hidePDFTimeout :: "'img PDFViewer \<Rightarrow> 'img PDFViewer" where
  "hidePDFTimeout v =
     (let v1 = (case pdfDocument v of
                  Some d \<Rightarrow> (emit (Destroyed d) v)\<lparr>pdfDocument := None\<rparr>
                | None \<Rightarrow> v)
      in v1\<lparr>currentPage := 1, totalPages := 0, scale := Num 1.0\<rparr>)"

subsection \<open>Loading a document\<close>

definition httpError :: "nat \<Rightarrow> pdf_error" where
  "httpError status =
     (if status = 404 then NotFound
      else if status = 403 then Forbidden
      else if status = 500 then ServerError
      else if status = 503 then Unavailable
      else HttpError status)"

definition classifyLoadError :: "string \<Rightarrow> string \<Rightarrow> pdf_error" where
  "classifyLoadError name message =
     (if name = ''InvalidPDFException'' then InvalidPDF
      else if name = ''MissingPDFException'' then MissingPDF
      else if name = ''UnexpectedResponseException'' then UnexpectedResponse
      else if message \<noteq> [] \<and> String_includes message ''timeout'' then LoadTimeout
      else LoadFailed message)"

definition loadCached ::
  "'img env \<Rightarrow> string \<Rightarrow> pdfEntry \<Rightarrow> 'img PDFViewer \<Rightarrow> (pdf_error + unit) \<times> 'img PDFViewer" where
  "loadCached env pdfPath cachedPdf v =
     (let v1 = v\<lparr>pdfDocument := Some (document cachedPdf),
                 totalPages := numPages (document cachedPdf),
                 currentPage := 1,
                 pdfCache := Map_set (pdfCache v) pdfPath
                   (cachedPdf\<lparr>accessCount := accessCount cachedPdf + 1,
                              lastAccess := now env\<rparr>)\<rparr>
      in (Inr (), renderPage env (currentPage v1) v1))"

definition loadFresh ::
  "'img env \<Rightarrow> string \<Rightarrow> 'img PDFViewer \<Rightarrow> (pdf_error + unit) \<times> 'img PDFViewer" where
  "loadFresh env pdfPath v =
     (if \<not> pdfjsLib env then (Inl LibraryMissing, v)
      else
        (let v1 = emit (HeadRequest pdfPath) v in
         case fetchHead env pdfPath of
           FetchRejected message \<Rightarrow>
             (Inl (if String_includes message ''Failed to fetch'' \<or> String_includes message ''NetworkError''
                   then NetworkError else AccessError), v1)
         | Response ok status \<Rightarrow>
             if \<not> ok then (Inl (httpError status), v1)
             else
               (let v2 = emit (GetDocument pdfPath) v1 in
                case getDocument env pdfPath of
                  Rejected name message \<Rightarrow> (Inl (classifyLoadError name message), v2)
                | Resolved None \<Rightarrow> (Inl NoDocument, v2\<lparr>pdfDocument := None\<rparr>)
                | Resolved (Some d) \<Rightarrow>
                    (let v3 = v2\<lparr>pdfDocument := Some d, totalPages := numPages d\<rparr> in
                     if totalPages v3 = 0 then (Inl NoPages, v3)
                     else
                       (let v4 = cachePDF (now env) pdfPath d (v3\<lparr>currentPage := 1\<rparr>)
                        in (Inr (), renderPage env (currentPage v4) v4))))))"

definition loadPDF ::
  "'img env \<Rightarrow> string \<Rightarrow> 'img PDFViewer \<Rightarrow> (pdf_error + unit) \<times> 'img PDFViewer" where
  "loadPDF env pdfPath v =
     (if isLoading v then (Inr (), v)
      else if trim pdfPath = [] then (Inl InvalidPath, showError InvalidPath v)
      else
        (let v0 = v\<lparr>isLoading := True\<rparr>;
             (r, v1) = (case Map_get (pdfCache v0) pdfPath of
                          Some cachedPdf \<Rightarrow> loadCached env pdfPath cachedPdf v0
                        | None \<Rightarrow> loadFresh env pdfPath v0)
         in case r of
              Inl e \<Rightarrow> (Inl e, (showError e v1)\<lparr>isLoading := False\<rparr>)
            | Inr u \<Rightarrow> (Inr u, v1\<lparr>isLoading := False\<rparr>)))"

subsection \<open>Sequences of calls\<close>

text \<open>
  A call of a method, or the timer of an earlier \<open>hidePDF\<close> firing (a timer exists only
  where \<open>hidePDF\<close> sets one).
\<close>

datatype 'img pagerCall =
  LoadPDF "'img env" string | HidePDF | HidePDFTimeout
  | NextPage "'img env" | PreviousPage "'img env" | GoToPage "'img env" int
  | ZoomIn "'img env" | ZoomOut "'img env" | SetZoom "'img env" jsnum
  | ResetZoom "'img env" "jsnum option"
  | PerformPdfMemoryCleanup int | ClearPdfCache

fun pagerStep :: "'img pagerCall \<Rightarrow> 'img PDFViewer \<Rightarrow> 'img PDFViewer" where
  "pagerStep (LoadPDF env path) v = snd (loadPDF env path v)"
| "pagerStep HidePDF v = v"
| "pagerStep HidePDFTimeout v = (if hidePDF v then hidePDFTimeout v else v)"
| "pagerStep (NextPage env) v = nextPage env v"
| "pagerStep (PreviousPage env) v = previousPage env v"
| "pagerStep (GoToPage env n) v = goToPage env n v"
| "pagerStep (ZoomIn env) v = zoomIn env v"
| "pagerStep (ZoomOut env) v = zoomOut env v"
| "pagerStep (SetZoom env x) v = setZoom env x v"
| "pagerStep (ResetZoom env ratio) v = resetZoom env ratio v"
| "pagerStep (PerformPdfMemoryCleanup t) v = performPdfMemoryCleanup t v"
| "pagerStep ClearPdfCache v = clearPdfCache v"

definition runPager :: "'img pagerCall list \<Rightarrow> 'img PDFViewer" where
  "runPager cs = foldl (\<lambda>v c. pagerStep c v) (PDFViewer_constructor True) cs"

section \<open>The image cache (class ContentController in js/pdfViewer.js)\<close>

text \<open>
  An image element has a source and its natural size. The controller keeps decoded images
  by path; when an entry is dropped, the \<open>src\<close> of its image is set to the empty string,
  which is recorded in \<open>cleared\<close> (oldest first). \<open>preloadImage\<close> is the decoding
  of an image by the browser: it yields the image or fails.
\<close>

record Image =
  src :: string
  naturalWidth :: nat
  naturalHeight :: nat

record imageEntry =
  img :: Image
  imgTimestamp :: int
  imgAccessCount :: nat
  imgSize :: nat

record ContentController =
  imageCache :: "(string, imageEntry) jsmap"
  maxCacheSize :: nat
  cleared :: "Image list"

definition ContentController_constructor :: ContentController where
  "ContentController_constructor = \<lparr>imageCache = [], maxCacheSize = 20, cleared = []\<rparr>"

definition estimateImageSize :: "Image \<Rightarrow> nat" where
  "estimateImageSize im =
     (if naturalWidth im = 0 \<or> naturalHeight im = 0 then 0
      else naturalWidth im * naturalHeight im * 4)"

definition loadImageFromCache ::
  "int \<Rightarrow> (string \<Rightarrow> Image option) \<Rightarrow> string \<Rightarrow> ContentController
     \<Rightarrow> (string + Image) \<times> ContentController" where
  "loadImageFromCache t preloadImage imagePath c =
     (case Map_get (imageCache c) imagePath of
        Some cachedData \<Rightarrow> (Inr (img cachedData), c)
      | None \<Rightarrow>
          (case preloadImage imagePath of
             None \<Rightarrow> (Inl (''Failed to preload image: '' @ imagePath), c)
           | Some im \<Rightarrow>
               (let c1 =
                  (if Map_size (imageCache c) \<ge> maxCacheSize c then
                     (case imageCache c of
                        [] \<Rightarrow> c
                      | (firstKey, removedData) # _ \<Rightarrow>
                          c\<lparr>imageCache := Map_delete (imageCache c) firstKey,
                            cleared := cleared c @ [img removedData]\<rparr>)
                   else c)
                in (Inr im,
                    c1\<lparr>imageCache := Map_set (imageCache c1) imagePath
                         \<lparr>img = im, imgTimestamp = t, imgAccessCount = 1,
                          imgSize = estimateImageSize im\<rparr>\<rparr>))))"

text \<open>The loop of \<open>performMemoryCleanup\<close>, over the entries in order.\<close>

fun cleanImages :: "int \<Rightarrow> (string, imageEntry) jsmap \<Rightarrow> ContentController \<Rightarrow> ContentController" where
  "cleanImages t [] c = c"
| "cleanImages t ((path, data) # rest) c =
     (let maxAge = 10 * 60 * 1000; minAccessCount = 3; age = t - imgTimestamp data in
      if age > maxAge \<and> imgAccessCount data < minAccessCount
      then cleanImages t rest
             (c\<lparr>cleared := cleared c @ [img data],
                imageCache := Map_delete (imageCache c) path\<rparr>)
      else cleanImages t rest c)"

definition performMemoryCleanup :: "int \<Rightarrow> ContentController \<Rightarrow> ContentController" where
  "performMemoryCleanup t c = cleanImages t (imageCache c) c"

text \<open>A sequence of image loads, each at its time, with a browser that decodes every
  path to the same picture.\<close>

definition picture :: "string \<Rightarrow> Image option" where
  "picture path = Some \<lparr>src = path, naturalWidth = 800, naturalHeight = 600\<rparr>"

definition loadImages :: "(int \<times> string) list \<Rightarrow> ContentController" where
  "loadImages ls =
     foldl (\<lambda>c (t, path). snd (loadImageFromCache t picture path c))
       ContentController_constructor ls"

section \<open>Selection state (class UIState in js/pdfViewer.js)\<close>

text \<open>
  The state object holds three selections (string or null), four flags and messages, and the
  current problem. A \<open>ProblemData\<close> object is held by reference: the field
  \<open>currentProblem\<close> is modelled as an optional address into a store of
  \<open>ProblemData\<close> objects, so that the comparison \<open>oldValue !== problem\<close> of the
  source is equality of addresses.

  \<open>notifyStateChange\<close> calls every registered listener inside a try/catch. The model
  records one notification per call of \<open>notifyStateChange\<close> in the field
  \<open>notifications\<close> (oldest first); listeners are observers here, they do not call
  setters themselves.
\<close>

type_synonym addr = nat

record ProblemData =
  year :: string
  month :: string
  questionNumber :: string

datatype property =
  SelectedYear | SelectedMonth | SelectedQuestion | IsLoading | IsSolutionVisible
  | CurrentProblem | ErrorMessage | IsPdfLoading | PdfError

datatype jsvalue = VString "string option" | VBool bool | VRef "addr option"

record UIState =
  selectedYear :: "string option"
  selectedMonth :: "string option"
  selectedQuestion :: "string option"
  isLoading :: bool
  isSolutionVisible :: bool
  currentProblem :: "addr option"
  errorMessage :: "string option"
  isPdfLoading :: bool
  pdfError :: "string option"
  notifications :: "(property \<times> jsvalue \<times> jsvalue) list"

definition UIState_constructor :: UIState where
  "UIState_constructor =
     \<lparr>selectedYear = None, selectedMonth = None, selectedQuestion = None,
      isLoading = False, isSolutionVisible = False, currentProblem = None,
      errorMessage = None, isPdfLoading = False, pdfError = None, notifications = []\<rparr>"

definition notifyStateChange :: "property \<Rightarrow> jsvalue \<Rightarrow> jsvalue \<Rightarrow> UIState \<Rightarrow> UIState" where
  "notifyStateChange p oldValue newValue s =
     s\<lparr>notifications := notifications s @ [(p, oldValue, newValue)]\<rparr>"

definition setPdfError :: "string option \<Rightarrow> UIState \<Rightarrow> UIState" where
  "setPdfError error s =
     (let oldValue = pdfError s; s1 = s\<lparr>pdfError := error\<rparr>
      in if oldValue \<noteq> error
         then notifyStateChange PdfError (VString oldValue) (VString error) s1
         else s1)"

definition setErrorMessage :: "string option \<Rightarrow> UIState \<Rightarrow> UIState" where
  "setErrorMessage message s =
     (let oldValue = errorMessage s; s1 = s\<lparr>errorMessage := message\<rparr>
      in if oldValue \<noteq> message
         then notifyStateChange ErrorMessage (VString oldValue) (VString message) s1
         else s1)"

definition setSolutionVisible :: "bool \<Rightarrow> UIState \<Rightarrow> UIState" where
  "setSolutionVisible visible s =
     (let oldValue = isSolutionVisible s; s1 = s\<lparr>isSolutionVisible := visible\<rparr>
      in if oldValue \<noteq> visible
         then notifyStateChange IsSolutionVisible (VBool oldValue) (VBool visible)
                (if \<not> visible then setPdfError None s1 else s1)
         else s1)"

definition setCurrentProblem :: "addr option \<Rightarrow> UIState \<Rightarrow> UIState" where
  "setCurrentProblem problem s =
     (let oldValue = currentProblem s; s1 = s\<lparr>currentProblem := problem\<rparr>
      in if oldValue \<noteq> problem
         then notifyStateChange CurrentProblem (VRef oldValue) (VRef problem) s1
         else s1)"

definition setLoading :: "bool \<Rightarrow> UIState \<Rightarrow> UIState" where
  "setLoading loading s =
     (let oldValue = isLoading s; s1 = s\<lparr>isLoading := loading\<rparr>
      in if oldValue \<noteq> loading
         then notifyStateChange IsLoading (VBool oldValue) (VBool loading)
                (if loading then setErrorMessage None s1 else s1)
         else s1)"

definition setPdfLoading :: "bool \<Rightarrow> UIState \<Rightarrow> UIState" where
  "setPdfLoading loading s =
     (let oldValue = isPdfLoading s; s1 = s\<lparr>isPdfLoading := loading\<rparr>
      in if oldValue \<noteq> loading
         then notifyStateChange IsPdfLoading (VBool oldValue) (VBool loading)
                (if loading then setPdfError None s1 else s1)
         else s1)"

definition setSelectedQuestion :: "string option \<Rightarrow> UIState \<Rightarrow> UIState" where
  "setSelectedQuestion question s =
     (let oldValue = selectedQuestion s; s1 = s\<lparr>selectedQuestion := question\<rparr>
      in if oldValue \<noteq> question
         then notifyStateChange SelectedQuestion (VString oldValue) (VString question)
                (setSolutionVisible False (setCurrentProblem None s1))
         else s1)"

definition setSelectedMonth :: "string option \<Rightarrow> UIState \<Rightarrow> UIState" where
  "setSelectedMonth m s =
     (let oldValue = selectedMonth s; s1 = s\<lparr>selectedMonth := m\<rparr>
      in if oldValue \<noteq> m
         then notifyStateChange SelectedMonth (VString oldValue) (VString m)
                (setSelectedQuestion None s1)
         else s1)"

definition setSelectedYear :: "string option \<Rightarrow> UIState \<Rightarrow> UIState" where
  "setSelectedYear y s =
     (let oldValue = selectedYear s; s1 = s\<lparr>selectedYear := y\<rparr>
      in if oldValue \<noteq> y
         then notifyStateChange SelectedYear (VString oldValue) (VString y)
                (setSelectedQuestion None (setSelectedMonth None s1))
         else s1)"

definition reset :: "UIState \<Rightarrow> UIState" where
  "reset s =
     setPdfError None (setPdfLoading False (setErrorMessage None (setLoading False
       (setSolutionVisible False (setCurrentProblem None (setSelectedQuestion None
         (setSelectedMonth None (setSelectedYear None s))))))))"

text \<open>The public mutators of the class, and the states they reach from a fresh object.\<close>

datatype setter =
  SetSelectedYear "string option" | SetSelectedMonth "string option"
  | SetSelectedQuestion "string option" | SetLoading bool | SetCurrentProblem "addr option"
  | SetSolutionVisible bool | SetErrorMessage "string option" | SetPdfLoading bool
  | SetPdfError "string option" | Reset

fun call :: "setter \<Rightarrow> UIState \<Rightarrow> UIState" where
  "call (SetSelectedYear y) s = setSelectedYear y s"
| "call (SetSelectedMonth m) s = setSelectedMonth m s"
| "call (SetSelectedQuestion q) s = setSelectedQuestion q s"
| "call (SetLoading b) s = setLoading b s"
| "call (SetCurrentProblem p) s = setCurrentProblem p s"
| "call (SetSolutionVisible b) s = setSolutionVisible b s"
| "call (SetErrorMessage m) s = setErrorMessage m s"
| "call (SetPdfLoading b) s = setPdfLoading b s"
| "call (SetPdfError e) s = setPdfError e s"
| "call Reset s = reset s"

definition run :: "setter list \<Rightarrow> UIState" where
  "run cs = foldl (\<lambda>s c. call c s) UIState_constructor cs"

text \<open>The value a property has in a state, and the notifications a call has added.\<close>

fun valueOf :: "property \<Rightarrow> UIState \<Rightarrow> jsvalue" where
  "valueOf SelectedYear s = VString (selectedYear s)"
| "valueOf SelectedMonth s = VString (selectedMonth s)"
| "valueOf SelectedQuestion s = VString (selectedQuestion s)"
| "valueOf IsLoading s = VBool (isLoading s)"
| "valueOf IsSolutionVisible s = VBool (isSolutionVisible s)"
| "valueOf CurrentProblem s = VRef (currentProblem s)"
| "valueOf ErrorMessage s = VString (errorMessage s)"
| "valueOf IsPdfLoading s = VBool (isPdfLoading s)"
| "valueOf PdfError s = VString (pdfError s)"

definition fired :: "UIState \<Rightarrow> UIState \<Rightarrow> (property \<times> jsvalue \<times> jsvalue) list" where
  "fired s s' = drop (length (notifications s)) (notifications s')"

definition firedFor :: "property \<Rightarrow> UIState \<Rightarrow> UIState \<Rightarrow> (jsvalue \<times> jsvalue) list" where
  "firedFor p s s' = map snd (filter (\<lambda>n. fst n = p) (fired s s'))"

text \<open>\<open>ProblemData.equals\<close>: structural comparison of the three fields (the
  \<open>instanceof\<close> test holds by typing).\<close>

definition equals :: "ProblemData \<Rightarrow> ProblemData \<Rightarrow> bool" where
  "equals this other \<longleftrightarrow>
     year this = year other \<and> month this = month other
     \<and> questionNumber this = questionNumber other"


section \<open>The catalogue (class DataManager in js/dataManager.js)\<close>

text \<open>
  \<open>parseInt\<close> without a radix: leading white space is skipped, then an optional sign,
  then the prefix \<open>0x\<close> or \<open>0X\<close> selects radix 16 (radix 10 otherwise), and the longest
  run of digits is read. No digit gives \<open>NaN\<close>, here \<open>None\<close>. The result is the exact
  integer; the rounding of integers beyond the precision of a double is not modelled.
\<close>

definition digitValue :: "nat \<Rightarrow> char \<Rightarrow> nat option" where
  "digitValue radix c =
     (let n = of_char c :: nat;
          d = (if 48 \<le> n \<and> n \<le> 57 then Some (n - 48)
               else if 97 \<le> n \<and> n \<le> 122 then Some (n - 87)
               else if 65 \<le> n \<and> n \<le> 90 then Some (n - 55)
               else None)
      in case d of Some k \<Rightarrow> if k < radix then Some k else None | None \<Rightarrow> None)"

fun digitsValue :: "nat \<Rightarrow> nat \<Rightarrow> string \<Rightarrow> nat" where
  "digitsValue radix acc [] = acc"
| "digitsValue radix acc (c # cs) =
     (case digitValue radix c of
        Some k \<Rightarrow> digitsValue radix (acc * radix + k) cs
      | None \<Rightarrow> acc)"

definition parseInt :: "string \<Rightarrow> int option" where
  "parseInt input =
     (let s = trimStart input;
          sign = (if startsWith s ''-'' then - 1 else 1 :: int);
          s1 = (if startsWith s ''-'' \<or> startsWith s ''+'' then tl s else s);
          radix = (if startsWith s1 ''0x'' \<or> startsWith s1 ''0X'' then 16 else 10 :: nat);
          s2 = (if startsWith s1 ''0x'' \<or> startsWith s1 ''0X'' then drop 2 s1 else s1)
      in case s2 of
           [] \<Rightarrow> None
         | c # cs \<Rightarrow>
             if digitValue radix c = None then None
             else Some (sign * int (digitsValue radix 0 s2)))"

text \<open>
  \<open>[...new Set(xs)]\<close> keeps the first occurrence of every value, in order.
  \<open>Array.prototype.sort\<close> with a comparator is a stable sort: it is modelled as the
  stable insertion sort, which for a consistent comparator returns the list every stable sort
  returns. A comparator value \<open>NaN\<close> counts as 0, which is how \<open>numDiff\<close> reads the
  difference of two parsed numbers.
\<close>

definition Set_values :: "'a list \<Rightarrow> 'a list" where
  "Set_values xs = foldl (\<lambda>s x. if x \<in> set s then s else s @ [x]) [] xs"

fun insertSorted :: "('a \<Rightarrow> 'a \<Rightarrow> int) \<Rightarrow> 'a \<Rightarrow> 'a list \<Rightarrow> 'a list" where
  "insertSorted cmp x [] = [x]"
| "insertSorted cmp x (y # ys) =
     (if cmp x y \<le> 0 then x # y # ys else y # insertSorted cmp x ys)"

definition Array_sort :: "('a \<Rightarrow> 'a \<Rightarrow> int) \<Rightarrow> 'a list \<Rightarrow> 'a list" where
  "Array_sort cmp xs = foldr (insertSorted cmp) xs []"

definition numDiff :: "int option \<Rightarrow> int option \<Rightarrow> int" where
  "numDiff a b = (case (a, b) of (Some m, Some n) \<Rightarrow> m - n | _ \<Rightarrow> 0)"

record DataManager =
  csvData :: "ProblemData list"
  isDataLoaded :: bool

definition DataManager_constructor :: DataManager where
  "DataManager_constructor = \<lparr>csvData = [], isDataLoaded = False\<rparr>"

text \<open>
  The rows of the parsed file are lists of cells, each a string. \<open>validRow\<close> is the
  filter of \<open>loadCSVData\<close> (its logging left out), \<open>storeRows\<close> what the function does
  with the parsed rows: it fails when no row is valid, and otherwise stores the trimmed
  cells of the valid rows.
\<close>

fun validRow :: "string list \<Rightarrow> bool" where
  "validRow (y # m # q # rest) =
     (if y = [] \<or> m = [] \<or> q = [] then False
      else
        (case (parseInt (trim y), parseInt (trim m), parseInt (trim q)) of
           (Some yearNum, Some monthNum, Some questionNum) \<Rightarrow>
             if yearNum < 2000 \<or> yearNum > 2100 then False
             else if monthNum < 1 \<or> monthNum > 12 then False
             else if questionNum < 1 \<or> questionNum > 999 then False
             else True
         | _ \<Rightarrow> False))"
| "validRow _ = False"

definition rowItem :: "string list \<Rightarrow> ProblemData" where
  "rowItem row = \<lparr>year = trim (row ! 0), month = trim (row ! 1),
                  questionNumber = trim (row ! 2)\<rparr>"

datatype csv_error = NoValidData

definition storeRows ::
  "string list list \<Rightarrow> DataManager \<Rightarrow> (csv_error + ProblemData list) \<times> DataManager" where
  "storeRows rows dm =
     (let validData = filter validRow rows in
      if length validData = 0 then (Inl NoValidData, dm)
      else (Inr (map rowItem validData),
            dm\<lparr>csvData := map rowItem validData, isDataLoaded := True\<rparr>))"

definition getAvailableYears :: "DataManager \<Rightarrow> string list" where
  "getAvailableYears dm =
     (if \<not> isDataLoaded dm \<or> length (csvData dm) = 0 then []
      else Array_sort (\<lambda>a b. numDiff (parseInt b) (parseInt a))
             (Set_values (map year (csvData dm))))"

definition getMonthsForYear :: "DataManager \<Rightarrow> string \<Rightarrow> string list" where
  "getMonthsForYear dm y =
     (if \<not> isDataLoaded dm \<or> length (csvData dm) = 0 \<or> y = [] then []
      else Array_sort (\<lambda>a b. numDiff (parseInt a) (parseInt b))
             (Set_values (map month (filter (\<lambda>item. year item = y) (csvData dm)))))"

definition getQuestionsForYearMonth :: "DataManager \<Rightarrow> string \<Rightarrow> string \<Rightarrow> string list" where
  "getQuestionsForYearMonth dm y m =
     (if \<not> isDataLoaded dm \<or> length (csvData dm) = 0 \<or> y = [] \<or> m = [] then []
      else Array_sort (\<lambda>a b. numDiff (parseInt a) (parseInt b))
             (Set_values (map questionNumber
                (filter (\<lambda>item. year item = y \<and> month item = m) (csvData dm)))))"

section \<open>Retrying (App.retryWithBackoff in js/app.js)\<close>

text \<open>
  The operation and the connectivity check are given by what they answer in each attempt:
  \<open>operation env k\<close> is the outcome of the operation when it is called in attempt \<open>k\<close>
  (an error message or a value), \<open>checkNetworkConnectivity env k\<close> the answer of the
  check made in attempt \<open>k\<close>, \<open>random env k\<close> the random number drawn after attempt
  \<open>k\<close>. The messages shown to the user are left out.

  An error is the error of the operation with its message (the operation fails with an
  error object that has one), or the connectivity error the wrapper throws itself. The
  error thrown at the end has the message
  \<open>operationName ... (maxRetries ...): lastError.message\<close>; it is represented by the
  operation name, the number of attempts and the last error. With no attempt made
  (\<open>maxRetries\<close> zero) \<open>lastError\<close> is undefined and reading its message is a
  \<open>TypeError\<close>.
\<close>

datatype attempt_error = OperationFailed string | Offline

datatype retry_error = Exhausted string nat attempt_error | TypeError

datatype retry_event = ConnectivityCheck nat bool | OperationCall nat | Delay nat real

record 'a retryEnv =
  operation :: "nat \<Rightarrow> string + 'a"
  checkNetworkConnectivity :: "nat \<Rightarrow> bool"
  random :: "nat \<Rightarrow> real"

text \<open>The body of the \<open>try\<close> block in attempt \<open>k\<close>: its outcome and what it does.\<close>

definition attemptOutcome :: "'a retryEnv \<Rightarrow> nat \<Rightarrow> attempt_error + 'a" where
  "attemptOutcome env attempt =
     (if attempt > 1 \<and> \<not> checkNetworkConnectivity env attempt then Inl Offline
      else (case operation env attempt of
              Inl message \<Rightarrow> Inl (OperationFailed message)
            | Inr result \<Rightarrow> Inr result))"

definition attemptEvents :: "'a retryEnv \<Rightarrow> nat \<Rightarrow> retry_event list" where
  "attemptEvents env attempt =
     (if attempt > 1
      then (if checkNetworkConnectivity env attempt
            then [ConnectivityCheck attempt True, OperationCall attempt]
            else [ConnectivityCheck attempt False])
      else [OperationCall attempt])"

definition backoff :: "'a retryEnv \<Rightarrow> real \<Rightarrow> nat \<Rightarrow> real" where
  "backoff env baseDelay attempt = baseDelay * 2 ^ (attempt - 1) + random env attempt * 1000"

definition allFailed :: "string \<Rightarrow> nat \<Rightarrow> attempt_error option \<Rightarrow> retry_error" where
  "allFailed operationName maxRetries lastError =
     (case lastError of None \<Rightarrow> TypeError | Some e \<Rightarrow> Exhausted operationName maxRetries e)"

function retryLoop ::
  "'a retryEnv \<Rightarrow> nat \<Rightarrow> real \<Rightarrow> string \<Rightarrow> nat \<Rightarrow> attempt_error option \<Rightarrow> retry_event list
     \<Rightarrow> (retry_error + 'a) \<times> retry_event list" where
  "retryLoop env maxRetries baseDelay operationName attempt lastError trace =
     (if attempt \<le> maxRetries then
        (case attemptOutcome env attempt of
           Inr result \<Rightarrow> (Inr result, trace @ attemptEvents env attempt)
         | Inl error \<Rightarrow>
             if attempt = maxRetries
             then (Inl (allFailed operationName maxRetries (Some error)),
                   trace @ attemptEvents env attempt)
             else retryLoop env maxRetries baseDelay operationName (attempt + 1) (Some error)
                    (trace @ attemptEvents env attempt
                       @ [Delay attempt (backoff env baseDelay attempt)]))
      else (Inl (allFailed operationName maxRetries lastError), trace))"
  by pat_completeness auto
termination
  by (relation "measure (\<lambda>(env, maxRetries, baseDelay, operationName, attempt, lastError, trace).
        Suc maxRetries - attempt)") auto

definition retryWithBackoff ::
  "'a retryEnv \<Rightarrow> nat \<Rightarrow> real \<Rightarrow> string \<Rightarrow> (retry_error + 'a) \<times> retry_event list" where
  "retryWithBackoff env maxRetries baseDelay operationName =
     retryLoop env maxRetries baseDelay operationName 1 None []"

section \<open>Example environments and states\<close>

text \<open>
  A browser in which every request succeeds: the library is loaded, every path exists and
  parses to a three-page document whose fingerprint is its path, every page renders.
\<close>

definition docAt :: "string \<Rightarrow> doc" where
  "docAt path = \<lparr>doc_id = length path, numPages = 3, fingerprint = Some path\<rparr>"

definition onlineAt :: "int \<Rightarrow> nat env" where
  "onlineAt t =
     \<lparr>now = t, pdfjsLib = True, fetchHead = (\<lambda>path. Response True 200),
      getDocument = (\<lambda>path. Resolved (Some (docAt path))),
      renderCanvas = (\<lambda>d n s. Some (nat n))\<rparr>"

text \<open>The viewer after its first document is loaded.\<close>

definition loadedViewer :: "nat PDFViewer" where
  "loadedViewer = snd (loadPDF (onlineAt 0) ''sol/a.pdf'' (PDFViewer_constructor True))"

text \<open>A viewer and a controller with old and recent cache entries.\<close>

definition agedViewer :: "nat PDFViewer" where
  "agedViewer =
     (PDFViewer_constructor True)
       \<lparr>pdfCache :=
          [(''sol/a.pdf'', \<lparr>document = docAt ''sol/a.pdf'', loadTime = 0, lastAccess = 0,
                            accessCount = 1, cachedTotalPages = 3\<rparr>),
           (''sol/b.pdf'', \<lparr>document = docAt ''sol/b.pdf'', loadTime = 0, lastAccess = 0,
                            accessCount = 2, cachedTotalPages = 3\<rparr>)],
        renderedPageCache :=
          [((''sol/a.pdf'', 1, Num 1), \<lparr>imageData = 1, timestamp = 0\<rparr>),
           ((''sol/a.pdf'', 2, Num 1), \<lparr>imageData = 2, timestamp = 900000\<rparr>)]\<rparr>"

definition agedController :: ContentController where
  "agedController =
     \<lparr>imageCache =
        [(''mun/a.png'', \<lparr>img = \<lparr>src = ''mun/a.png'', naturalWidth = 800, naturalHeight = 600\<rparr>,
                          imgTimestamp = 0, imgAccessCount = 1, imgSize = 1920000\<rparr>),
         (''mun/b.png'', \<lparr>img = \<lparr>src = ''mun/b.png'', naturalWidth = 800, naturalHeight = 600\<rparr>,
                          imgTimestamp = 0, imgAccessCount = 3, imgSize = 1920000\<rparr>),
         (''mun/c.png'', \<lparr>img = \<lparr>src = ''mun/c.png'', naturalWidth = 800, naturalHeight = 600\<rparr>,
                          imgTimestamp = 500000, imgAccessCount = 1, imgSize = 1920000\<rparr>)],
      maxCacheSize = 20, cleared = []\<rparr>"

text \<open>
  An operation that fails in the first attempt and would succeed afterwards, with the network
  down at the second attempt (\<open>flakyOffline\<close>) or down throughout (\<open>staysOffline\<close>);
  one that fails twice before it succeeds and one that always fails, with the network up.
\<close>

definition flakyOffline :: "nat retryEnv" where
  "flakyOffline =
     \<lparr>operation = (\<lambda>k. if k = 1 then Inl ''HTTP 503'' else Inr 42),
      checkNetworkConnectivity = (\<lambda>k. k \<noteq> 2),
      random = (\<lambda>k. 0)\<rparr>"

definition staysOffline :: "nat retryEnv" where
  "staysOffline =
     \<lparr>operation = (\<lambda>k. if k = 1 then Inl ''HTTP 503'' else Inr 42),
      checkNetworkConnectivity = (\<lambda>k. False),
      random = (\<lambda>k. 0)\<rparr>"

definition failsTwice :: "nat retryEnv" where
  "failsTwice =
     \<lparr>operation = (\<lambda>k. if k < 3 then Inl ''HTTP 503'' else Inr 42),
      checkNetworkConnectivity = (\<lambda>k. True),
      random = (\<lambda>k. 0)\<rparr>"

definition alwaysFails :: "nat retryEnv" where
  "alwaysFails =
     \<lparr>operation = (\<lambda>k. Inl ''HTTP 503''),
      checkNetworkConnectivity = (\<lambda>k. True),
      random = (\<lambda>k. 0)\<rparr>"

text \<open>Rows of a file in no particular order, one of them out of range.\<close>

definition shuffledRows :: "string list list" where
  "shuffledRows =
     [[''2021'', ''11'', ''3''], [''2022'', ''11'', ''1''], [''2022'', ''13'', ''1''],
      [''2022'', ''6'', ''2''], [''2022'', ''6'', ''1'']]"

section \<open>Properties of the selection state\<close>

text \<open>Each setter as one record update, with the notifications it appends.\<close>

lemma setPdfError_eq:
  "setPdfError e s = s\<lparr>pdfError := e,
     notifications := notifications s @
       (if pdfError s \<noteq> e then [(PdfError, VString (pdfError s), VString e)] else [])\<rparr>"
  by (simp add: setPdfError_def notifyStateChange_def Let_def)

lemma setCurrentProblem_eq:
  "setCurrentProblem p s = s\<lparr>currentProblem := p,
     notifications := notifications s @
       (if currentProblem s \<noteq> p
        then [(CurrentProblem, VRef (currentProblem s), VRef p)] else [])\<rparr>"
  by (simp add: setCurrentProblem_def notifyStateChange_def Let_def)

lemma setSolutionVisible_False_eq:
  "setSolutionVisible False s = s\<lparr>isSolutionVisible := False,
     pdfError := (if isSolutionVisible s then None else pdfError s),
     notifications := notifications s @
       (if isSolutionVisible s \<and> pdfError s \<noteq> None
        then [(PdfError, VString (pdfError s), VString None)] else []) @
       (if isSolutionVisible s then [(IsSolutionVisible, VBool True, VBool False)] else [])\<rparr>"
  by (simp add: setSolutionVisible_def setPdfError_eq notifyStateChange_def Let_def)

lemma setSelectedQuestion_None_eq:
  "setSelectedQuestion None s =
    (if selectedQuestion s = None then s else
     s\<lparr>selectedQuestion := None, currentProblem := None, isSolutionVisible := False,
       pdfError := (if isSolutionVisible s then None else pdfError s),
       notifications := notifications s @
        (if currentProblem s \<noteq> None
         then [(CurrentProblem, VRef (currentProblem s), VRef None)] else []) @
        (if isSolutionVisible s \<and> pdfError s \<noteq> None
         then [(PdfError, VString (pdfError s), VString None)] else []) @
        (if isSolutionVisible s then [(IsSolutionVisible, VBool True, VBool False)] else []) @
        [(SelectedQuestion, VString (selectedQuestion s), VString None)]\<rparr>)"
  by (simp add: setSelectedQuestion_def setSolutionVisible_False_eq
      setCurrentProblem_eq notifyStateChange_def Let_def)

lemmas year_simps = setSelectedYear_def setSelectedMonth_def setSelectedQuestion_None_eq
  notifyStateChange_def Let_def

lemmas setter_defs = setSelectedYear_def setSelectedMonth_def setSelectedQuestion_def
  setCurrentProblem_def setSolutionVisible_def setPdfError_def notifyStateChange_def

text \<open>
  Claim C2, as stated, fails: \<open>setSelectedYear\<close> reaches \<open>setCurrentProblem(null)\<close> and
  \<open>setSolutionVisible(false)\<close> only through \<open>setSelectedQuestion(null)\<close>, whose body is
  guarded by \<open>oldValue !== question\<close>. From a fresh state, after
  \<open>setCurrentProblem(p)\<close>, the call \<open>setSelectedYear('2021')\<close> changes the year and
  leaves \<open>currentProblem\<close> at \<open>p\<close>. In the same way, when the solution is made visible
  after the selection was reset (the document of an earlier question arriving late), the next
  change of year leaves \<open>isSolutionVisible\<close> true.
\<close>

theorem setSelectedYear_keeps_currentProblem:
  "selectedYear (run [SetCurrentProblem (Some 0)]) = None
   \<and> selectedYear (setSelectedYear (Some ''2021'') (run [SetCurrentProblem (Some 0)]))
       = Some ''2021''
   \<and> currentProblem (setSelectedYear (Some ''2021'') (run [SetCurrentProblem (Some 0)]))
       = Some 0
   \<and> selectedYear (run [SetSelectedYear (Some ''2022''), SetSelectedMonth (Some ''6''),
         SetSelectedQuestion (Some ''3''), SetCurrentProblem (Some 7),
         SetSelectedYear (Some ''2021''), SetSolutionVisible True]) = Some ''2021''
   \<and> isSolutionVisible (setSelectedYear (Some ''2020'')
        (run [SetSelectedYear (Some ''2022''), SetSelectedMonth (Some ''6''),
         SetSelectedQuestion (Some ''3''), SetCurrentProblem (Some 7),
         SetSelectedYear (Some ''2021''), SetSolutionVisible True]))"
  by (simp add: run_def UIState_constructor_def setter_defs Let_def)

text \<open>
  Claim C2, amended: for every state (reachable or not) and every \<open>y\<close> different from the
  current \<open>selectedYear\<close>, \<open>setSelectedYear y\<close> sets \<open>selectedYear\<close> to \<open>y\<close> and
  resets \<open>selectedMonth\<close> and \<open>selectedQuestion\<close> to null; when \<open>selectedQuestion\<close>
  was not null before the call it also forces \<open>currentProblem\<close> to null and
  \<open>isSolutionVisible\<close> to false, and when \<open>selectedQuestion\<close> was already null it leaves
  both as they were; for every property, the call fires exactly one notification (carrying the
  old and the new value) if the property's value changed and none if it did not.
\<close>

theorem setSelectedYear_cascade:
  assumes "y \<noteq> selectedYear s"
  shows "selectedYear (setSelectedYear y s) = y
     \<and> selectedMonth (setSelectedYear y s) = None
     \<and> selectedQuestion (setSelectedYear y s) = None
     \<and> (selectedQuestion s \<noteq> None \<longrightarrow>
          currentProblem (setSelectedYear y s) = None
          \<and> \<not> isSolutionVisible (setSelectedYear y s))
     \<and> (selectedQuestion s = None \<longrightarrow>
          currentProblem (setSelectedYear y s) = currentProblem s
          \<and> isSolutionVisible (setSelectedYear y s) = isSolutionVisible s)
     \<and> (\<forall>p. firedFor p s (setSelectedYear y s) =
            (if valueOf p (setSelectedYear y s) \<noteq> valueOf p s
             then [(valueOf p s, valueOf p (setSelectedYear y s))] else []))"
proof -
  have fields: "selectedYear (setSelectedYear y s) = y
     \<and> selectedMonth (setSelectedYear y s) = None
     \<and> selectedQuestion (setSelectedYear y s) = None
     \<and> (selectedQuestion s \<noteq> None \<longrightarrow>
          currentProblem (setSelectedYear y s) = None
          \<and> \<not> isSolutionVisible (setSelectedYear y s))
     \<and> (selectedQuestion s = None \<longrightarrow>
          currentProblem (setSelectedYear y s) = currentProblem s
          \<and> isSolutionVisible (setSelectedYear y s) = isSolutionVisible s)"
    using assms
    by (cases "selectedMonth s"; cases "selectedQuestion s"; simp add: year_simps)
  have fired_ok: "firedFor p s (setSelectedYear y s) =
            (if valueOf p (setSelectedYear y s) \<noteq> valueOf p s
             then [(valueOf p s, valueOf p (setSelectedYear y s))] else [])" for p
    using assms
    by (cases p; cases "selectedMonth s"; cases "selectedQuestion s"; cases "pdfError s";
        simp add: year_simps firedFor_def fired_def)
  from fields fired_ok show ?thesis by blast
qed

text \<open>
  The theorem at the sequence of the specification (year 2022, month 6, question 3, a problem
  shown with its solution, then year 2021), and at the state of the counterexample, where
  \<open>selectedQuestion\<close> is null.
\<close>

theorem setSelectedYear_cascade_witness:
  "Some ''2021'' \<noteq> selectedYear (run [SetSelectedYear (Some ''2022''),
       SetSelectedMonth (Some ''6''), SetSelectedQuestion (Some ''3''),
       SetCurrentProblem (Some 7), SetSolutionVisible True])
   \<and> selectedQuestion (run [SetSelectedYear (Some ''2022''),
       SetSelectedMonth (Some ''6''), SetSelectedQuestion (Some ''3''),
       SetCurrentProblem (Some 7), SetSolutionVisible True]) = Some ''3''
   \<and> currentProblem (setSelectedYear (Some ''2021'') (run [SetSelectedYear (Some ''2022''),
       SetSelectedMonth (Some ''6''), SetSelectedQuestion (Some ''3''),
       SetCurrentProblem (Some 7), SetSolutionVisible True])) = None
   \<and> firedFor SelectedMonth (run [SetSelectedYear (Some ''2022''),
       SetSelectedMonth (Some ''6''), SetSelectedQuestion (Some ''3''),
       SetCurrentProblem (Some 7), SetSolutionVisible True])
      (setSelectedYear (Some ''2021'') (run [SetSelectedYear (Some ''2022''),
       SetSelectedMonth (Some ''6''), SetSelectedQuestion (Some ''3''),
       SetCurrentProblem (Some 7), SetSolutionVisible True]))
      = [(VString (Some ''6''), VString None)]
   \<and> firedFor IsLoading (run [SetSelectedYear (Some ''2022''),
       SetSelectedMonth (Some ''6''), SetSelectedQuestion (Some ''3''),
       SetCurrentProblem (Some 7), SetSolutionVisible True])
      (setSelectedYear (Some ''2021'') (run [SetSelectedYear (Some ''2022''),
       SetSelectedMonth (Some ''6''), SetSelectedQuestion (Some ''3''),
       SetCurrentProblem (Some 7), SetSolutionVisible True])) = []
   \<and> Some ''2021'' \<noteq> selectedYear (run [SetCurrentProblem (Some 0)])
   \<and> selectedQuestion (run [SetCurrentProblem (Some 0)]) = None
   \<and> currentProblem (setSelectedYear (Some ''2021'') (run [SetCurrentProblem (Some 0)]))
       = currentProblem (run [SetCurrentProblem (Some 0)])"
proof -
  let ?s = "run [SetSelectedYear (Some ''2022''),
       SetSelectedMonth (Some ''6''), SetSelectedQuestion (Some ''3''),
       SetCurrentProblem (Some 7), SetSolutionVisible True]"
  let ?t = "run [SetCurrentProblem (Some 0)]"
  have s: "?s = \<lparr>selectedYear = Some ''2022'', selectedMonth = Some ''6'',
      selectedQuestion = Some ''3'', isLoading = False, isSolutionVisible = True,
      currentProblem = Some 7, errorMessage = None, isPdfLoading = False, pdfError = None,
      notifications = [(SelectedYear, VString None, VString (Some ''2022'')),
        (SelectedMonth, VString None, VString (Some ''6'')),
        (SelectedQuestion, VString None, VString (Some ''3'')),
        (CurrentProblem, VRef None, VRef (Some 7)),
        (IsSolutionVisible, VBool False, VBool True)]\<rparr>"
    by (simp add: run_def UIState_constructor_def setter_defs Let_def)
  have t: "?t = \<lparr>selectedYear = None, selectedMonth = None,
      selectedQuestion = None, isLoading = False, isSolutionVisible = False,
      currentProblem = Some 0, errorMessage = None, isPdfLoading = False, pdfError = None,
      notifications = [(CurrentProblem, VRef None, VRef (Some 0))]\<rparr>"
    by (simp add: run_def UIState_constructor_def setter_defs Let_def)
  have hs: "Some ''2021'' \<noteq> selectedYear ?s" and qs: "selectedQuestion ?s = Some ''3''"
    by (simp_all add: s)
  have ht: "Some ''2021'' \<noteq> selectedYear ?t" and qt: "selectedQuestion ?t = None"
    by (simp_all add: t)
  note a = setSelectedYear_cascade [OF hs]
  note b = setSelectedYear_cascade [OF ht]
  from a qs have a1: "currentProblem (setSelectedYear (Some ''2021'') ?s) = None" by blast
  from a have m: "selectedMonth (setSelectedYear (Some ''2021'') ?s) = None" by blast
  from a have "firedFor SelectedMonth ?s (setSelectedYear (Some ''2021'') ?s) =
      (if valueOf SelectedMonth (setSelectedYear (Some ''2021'') ?s) \<noteq> valueOf SelectedMonth ?s
       then [(valueOf SelectedMonth ?s, valueOf SelectedMonth (setSelectedYear (Some ''2021'') ?s))]
       else [])"
    by blast
  with m have a2: "firedFor SelectedMonth ?s (setSelectedYear (Some ''2021'') ?s)
      = [(VString (Some ''6''), VString None)]"
    by (simp add: s)
  from a have "firedFor IsLoading ?s (setSelectedYear (Some ''2021'') ?s) =
      (if valueOf IsLoading (setSelectedYear (Some ''2021'') ?s) \<noteq> valueOf IsLoading ?s
       then [(valueOf IsLoading ?s, valueOf IsLoading (setSelectedYear (Some ''2021'') ?s))]
       else [])"
    by blast
  then have a3: "firedFor IsLoading ?s (setSelectedYear (Some ''2021'') ?s) = []"
    by (simp add: s year_simps)
  from b qt have b1: "currentProblem (setSelectedYear (Some ''2021'') ?t) = currentProblem ?t"
    by blast
  from hs qs a1 a2 a3 ht qt b1 show ?thesis by blast
qed

text \<open>
  Claim C8: \<open>setCurrentProblem\<close> compares references. With two distinct objects \<open>a\<close> and
  \<open>b\<close> of the store that are equal field by field (\<open>ProblemData.equals\<close>), and \<open>a\<close>
  the current problem, setting \<open>b\<close> updates the field and fires exactly one
  \<open>currentProblem\<close> notification; setting \<open>a\<close> again fires none and changes nothing.
\<close>

theorem setCurrentProblem_compares_references:
  assumes "store a = Some pa" and "store b = Some pb" and "equals pa pb" and "a \<noteq> b"
    and "currentProblem s = Some a"
  shows "currentProblem (setCurrentProblem (Some b) s) = Some b
    \<and> fired s (setCurrentProblem (Some b) s) = [(CurrentProblem, VRef (Some a), VRef (Some b))]
    \<and> fired s (setCurrentProblem (Some a) s) = []
    \<and> setCurrentProblem (Some a) s = s"
  using assms by (simp add: setCurrentProblem_eq fired_def)

theorem setCurrentProblem_compares_references_witness:
  "equals \<lparr>year = ''2022'', month = ''6'', questionNumber = ''3''\<rparr>
          \<lparr>year = ''2022'', month = ''6'', questionNumber = ''3''\<rparr>
   \<and> (1::nat) \<noteq> 2
   \<and> currentProblem (setCurrentProblem (Some 2) (run [SetCurrentProblem (Some 1)])) = Some 2
   \<and> fired (run [SetCurrentProblem (Some 1)])
        (setCurrentProblem (Some 2) (run [SetCurrentProblem (Some 1)]))
      = [(CurrentProblem, VRef (Some 1), VRef (Some 2))]
   \<and> fired (run [SetCurrentProblem (Some 1)])
        (setCurrentProblem (Some 1) (run [SetCurrentProblem (Some 1)])) = []"
proof -
  let ?p = "\<lparr>year = ''2022'', month = ''6'', questionNumber = ''3''\<rparr>"
  let ?store = "[1 \<mapsto> ?p, 2 \<mapsto> ?p] :: addr \<Rightarrow> ProblemData option"
  let ?s = "run [SetCurrentProblem (Some 1)]"
  have h1: "?store 1 = Some ?p" and h2: "?store 2 = Some ?p" by simp_all
  have h3: "equals ?p ?p" by (simp add: equals_def)
  have h4: "(1::nat) \<noteq> 2" by simp
  have h5: "currentProblem ?s = Some 1"
    by (simp add: run_def UIState_constructor_def setCurrentProblem_eq)
  from setCurrentProblem_compares_references [OF h1 h2 h3 h4 h5] h3 h4
  show ?thesis by blast
qed


section \<open>Properties of the insertion-ordered map\<close>

lemma map_of_Map_delete:
  "map_of (Map_delete m k) k' = (if k' = k then None else map_of m k')"
  by (induction m) (auto simp: Map_delete_def)

lemma Map_get_Map_delete:
  "Map_get (Map_delete m k) k' = (if k' = k then None else Map_get m k')"
  by (simp add: Map_get_def map_of_Map_delete)

lemma Map_get_Map_set:
  "Map_get (Map_set m k x) k' = (if k' = k then Some x else Map_get m k')"
proof (cases "Map_has m k")
  case True
  have "map_of (map (\<lambda>e. if fst e = k then (k, x) else e) m) k' =
        (if k' = k then (if map_of m k = None then None else Some x) else map_of m k')"
    by (induction m) auto
  with True show ?thesis by (auto simp add: Map_get_def Map_set_def Map_has_def)
next
  case False
  then show ?thesis
    by (auto simp add: Map_get_def Map_set_def Map_has_def map_add_def split: option.splits)
qed

lemma same_key_same_entry:
  "distinct (map fst m) \<Longrightarrow> e \<in> set m \<Longrightarrow> e' \<in> set m \<Longrightarrow> fst e = fst e' \<Longrightarrow> e = e'"
  by (metis eq_key_imp_eq_value prod.collapse)

lemma filter_removed_keys:
  assumes "distinct (map fst m)"
  shows "filter (\<lambda>e. fst e \<notin> fst ` set (filter P m)) m = filter (\<lambda>e. \<not> P e) m"
proof (rule filter_cong [OF refl])
  fix e assume e: "e \<in> set m"
  show "(fst e \<notin> fst ` set (filter P m)) = (\<not> P e)"
  proof
    assume "fst e \<notin> fst ` set (filter P m)"
    with e show "\<not> P e" by force
  next
    assume np: "\<not> P e"
    show "fst e \<notin> fst ` set (filter P m)"
    proof
      assume "fst e \<in> fst ` set (filter P m)"
      then obtain e' where e': "e' \<in> set m" "P e'" "fst e' = fst e" by auto
      with same_key_same_entry [OF assms e e'(1)] have "e = e'" by simp
      with np e'(2) show False by simp
    qed
  qed
qed

section \<open>Properties of the caches of the viewer and of the controller\<close>

subsection \<open>What a call leaves alone\<close>

lemma emit_frame [simp]:
  "pdfCache (emit e v) = pdfCache v"
  "pdfDocument (emit e v) = pdfDocument v"
  "scale (emit e v) = scale v"
  "totalPages (emit e v) = totalPages v"
  "currentPage (emit e v) = currentPage v"
  "PDFViewer.isLoading (emit e v) = PDFViewer.isLoading v"
  "renderedPageCache (emit e v) = renderedPageCache v"
  "maxPageCacheSize (emit e v) = maxPageCacheSize v"
  "maxPdfCacheSize (emit e v) = maxPdfCacheSize v"
  "events (emit e v) = events v @ [e]"
  by (simp_all add: emit_def)

lemma getCachedRenderedPage_frame [simp]:
  "pdfCache (snd (getCachedRenderedPage t k v)) = pdfCache v"
  "pdfDocument (snd (getCachedRenderedPage t k v)) = pdfDocument v"
  "scale (snd (getCachedRenderedPage t k v)) = scale v"
  "totalPages (snd (getCachedRenderedPage t k v)) = totalPages v"
  "currentPage (snd (getCachedRenderedPage t k v)) = currentPage v"
  "PDFViewer.isLoading (snd (getCachedRenderedPage t k v)) = PDFViewer.isLoading v"
  "events (snd (getCachedRenderedPage t k v)) = events v"
  by (simp_all add: getCachedRenderedPage_def Let_def split: option.splits)

lemma cacheRenderedPage_frame [simp]:
  "pdfCache (cacheRenderedPage t k i v) = pdfCache v"
  "pdfDocument (cacheRenderedPage t k i v) = pdfDocument v"
  "scale (cacheRenderedPage t k i v) = scale v"
  "totalPages (cacheRenderedPage t k i v) = totalPages v"
  "currentPage (cacheRenderedPage t k i v) = currentPage v"
  "PDFViewer.isLoading (cacheRenderedPage t k i v) = PDFViewer.isLoading v"
  "events (cacheRenderedPage t k i v) = events v"
  by (simp_all add: cacheRenderedPage_def Let_def)

lemma renderPage_frame [simp]:
  "pdfCache (renderPage env n v) = pdfCache v"
  "pdfDocument (renderPage env n v) = pdfDocument v"
  "scale (renderPage env n v) = scale v"
  "totalPages (renderPage env n v) = totalPages v"
  "PDFViewer.isLoading (renderPage env n v) = PDFViewer.isLoading v"
  by (simp_all add: renderPage_def showError_def Let_def split_beta
      split: option.splits)

lemma renderPage_currentPage:
  "currentPage (renderPage env n v) = currentPage v \<or> currentPage (renderPage env n v) = n"
  by (simp add: renderPage_def showError_def Let_def split_beta split: option.splits)

lemma cachePDF_frame [simp]:
  "pdfDocument (cachePDF t p d v) = pdfDocument v"
  "scale (cachePDF t p d v) = scale v"
  "totalPages (cachePDF t p d v) = totalPages v"
  "currentPage (cachePDF t p d v) = currentPage v"
  "PDFViewer.isLoading (cachePDF t p d v) = PDFViewer.isLoading v"
  by (simp_all add: cachePDF_def Let_def split: option.splits)

lemma cachePDF_stores:
  "Map_get (pdfCache (cachePDF t p d v)) p =
     Some \<lparr>document = d, loadTime = t, lastAccess = t, accessCount = 1,
           cachedTotalPages = numPages d\<rparr>"
  by (simp add: cachePDF_def Let_def Map_get_Map_set)

subsection \<open>The sweeps\<close>

text \<open>Each loop removes the keys of the entries it finds idle, and disposes of them in
  order.\<close>

lemma cleanPdfs_eq:
  "cleanPdfs t es v =
     v\<lparr>events := events v @ map (\<lambda>e. Destroyed (document (snd e)))
           (filter (\<lambda>e. t - lastAccess (snd e) > 900000 \<and> accessCount (snd e) < 2) es),
       pdfCache := filter (\<lambda>e. fst e \<notin> fst ` set
           (filter (\<lambda>e. t - lastAccess (snd e) > 900000 \<and> accessCount (snd e) < 2) es))
           (pdfCache v)\<rparr>"
proof (induction es arbitrary: v)
  case Nil
  show ?case by simp
next
  case (Cons e es)
  obtain path data where e: "e = (path, data)" by (cases e)
  show ?case
    by (auto simp add: e Cons.IH emit_def Let_def Map_delete_def intro: filter_cong)
qed

lemma cleanPages_eq:
  "cleanPages t es v =
     v\<lparr>renderedPageCache := filter (\<lambda>e. fst e \<notin> fst ` set
           (filter (\<lambda>e. t - timestamp (snd e) > 300000) es))
           (renderedPageCache v)\<rparr>"
proof (induction es arbitrary: v)
  case Nil
  show ?case by simp
next
  case (Cons e es)
  obtain path data where e: "e = (path, data)" by (cases e)
  show ?case
    by (auto simp add: e Cons.IH Let_def Map_delete_def intro: filter_cong)
qed

lemma cleanImages_eq:
  "cleanImages t es c =
     c\<lparr>cleared := cleared c @ map (\<lambda>e. img (snd e))
           (filter (\<lambda>e. t - imgTimestamp (snd e) > 600000 \<and> imgAccessCount (snd e) < 3) es),
       imageCache := filter (\<lambda>e. fst e \<notin> fst ` set
           (filter (\<lambda>e. t - imgTimestamp (snd e) > 600000 \<and> imgAccessCount (snd e) < 3) es))
           (imageCache c)\<rparr>"
proof (induction es arbitrary: c)
  case Nil
  show ?case by simp
next
  case (Cons e es)
  obtain path data where e: "e = (path, data)" by (cases e)
  show ?case
    by (auto simp add: e Cons.IH Let_def Map_delete_def intro: filter_cong)
qed

text \<open>
  Claim C5. The age of an entry is the time since the time stamp the entry records
  (\<open>timestamp\<close> for images and rendered pages, \<open>lastAccess\<close> for documents). In a cache
  (a map, so with distinct keys) the sweep of the controller removes exactly the images
  older than 10 minutes with fewer than 3 accesses and clears each of them; the sweep of the
  viewer removes exactly the documents older than 15 minutes with fewer than 2 accesses and
  destroys each of them, and removes exactly the rendered pages older than 5 minutes.
  Every other entry stays, in its place and unchanged: so does an entry of the same age
  whose access count is at the floor or above.
\<close>

theorem sweep_removes_idle_entries:
  assumes "distinct (Map_keys (imageCache c))"
    and "distinct (Map_keys (pdfCache v))"
    and "distinct (Map_keys (renderedPageCache v))"
  shows "imageCache (performMemoryCleanup t c) =
           filter (\<lambda>e. \<not> (t - imgTimestamp (snd e) > 10 * 60 * 1000 \<and> imgAccessCount (snd e) < 3))
             (imageCache c)
    \<and> cleared (performMemoryCleanup t c) =
           cleared c @ map (\<lambda>e. img (snd e))
             (filter (\<lambda>e. t - imgTimestamp (snd e) > 10 * 60 * 1000 \<and> imgAccessCount (snd e) < 3)
               (imageCache c))
    \<and> pdfCache (performPdfMemoryCleanup t v) =
           filter (\<lambda>e. \<not> (t - lastAccess (snd e) > 15 * 60 * 1000 \<and> accessCount (snd e) < 2))
             (pdfCache v)
    \<and> events (performPdfMemoryCleanup t v) =
           events v @ map (\<lambda>e. Destroyed (document (snd e)))
             (filter (\<lambda>e. t - lastAccess (snd e) > 15 * 60 * 1000 \<and> accessCount (snd e) < 2)
               (pdfCache v))
    \<and> renderedPageCache (performPdfMemoryCleanup t v) =
           filter (\<lambda>e. \<not> t - timestamp (snd e) > 5 * 60 * 1000) (renderedPageCache v)"
  using assms
  by (simp add: performMemoryCleanup_def performPdfMemoryCleanup_def Let_def
      cleanImages_eq cleanPdfs_eq cleanPages_eq filter_removed_keys Map_keys_def
      del: set_filter)

theorem sweep_removes_idle_entries_witness:
  "distinct (Map_keys (imageCache agedController))
   \<and> distinct (Map_keys (pdfCache agedViewer))
   \<and> distinct (Map_keys (renderedPageCache agedViewer))
   \<and> Map_keys (imageCache (performMemoryCleanup 700000 agedController))
       = [''mun/b.png'', ''mun/c.png'']
   \<and> map src (cleared (performMemoryCleanup 700000 agedController)) = [''mun/a.png'']
   \<and> Map_keys (pdfCache (performPdfMemoryCleanup 1000000 agedViewer)) = [''sol/b.pdf'']
   \<and> events (performPdfMemoryCleanup 1000000 agedViewer) = [Destroyed (docAt ''sol/a.pdf'')]
   \<and> Map_keys (renderedPageCache (performPdfMemoryCleanup 1000000 agedViewer))
       = [(''sol/a.pdf'', 2, Num 1)]"
proof -
  have d1: "distinct (Map_keys (imageCache agedController))"
    by (simp add: agedController_def Map_keys_def)
  have d2: "distinct (Map_keys (pdfCache agedViewer))"
    by (simp add: agedViewer_def Map_keys_def)
  have d3: "distinct (Map_keys (renderedPageCache agedViewer))"
    by (simp add: agedViewer_def Map_keys_def)
  note a = sweep_removes_idle_entries [OF d1 d2 d3, of 700000]
  note b = sweep_removes_idle_entries [OF d1 d2 d3, of 1000000]
  from a have a1: "Map_keys (imageCache (performMemoryCleanup 700000 agedController))
       = [''mun/b.png'', ''mun/c.png'']"
    by (simp add: agedController_def Map_keys_def)
  from a have a2: "map src (cleared (performMemoryCleanup 700000 agedController))
       = [''mun/a.png'']"
    by (simp add: agedController_def)
  from b have b1: "Map_keys (pdfCache (performPdfMemoryCleanup 1000000 agedViewer))
       = [''sol/b.pdf'']"
    by (simp add: agedViewer_def Map_keys_def PDFViewer_constructor_def)
  from b have b2: "events (performPdfMemoryCleanup 1000000 agedViewer)
       = [Destroyed (docAt ''sol/a.pdf'')]"
    by (simp add: agedViewer_def PDFViewer_constructor_def)
  from b have b3: "Map_keys (renderedPageCache (performPdfMemoryCleanup 1000000 agedViewer))
       = [(''sol/a.pdf'', 2, Num 1)]"
    by (simp add: agedViewer_def Map_keys_def PDFViewer_constructor_def)
  from d1 d2 d3 a1 a2 b1 b2 b3 show ?thesis by blast
qed

subsection \<open>Lookup of a rendered page\<close>

text \<open>
  Claim C10. A lookup of a key that is absent misses and changes nothing. For a key that
  is present, a lookup less than 5 minutes after the entry's time stamp returns the image
  data and changes nothing (the time stamp stays); a lookup 5 minutes after it or later
  misses and deletes that entry, and only that entry.
\<close>

theorem getCachedRenderedPage_lazy_expiry:
  "(Map_get (renderedPageCache v) k = None \<longrightarrow> getCachedRenderedPage t k v = (None, v))
   \<and> (\<forall>e. Map_get (renderedPageCache v) k = Some e \<longrightarrow>
        (t - timestamp e < 5 * 60 * 1000 \<longrightarrow>
           getCachedRenderedPage t k v = (Some (imageData e), v))
        \<and> (t - timestamp e \<ge> 5 * 60 * 1000 \<longrightarrow>
           fst (getCachedRenderedPage t k v) = None
           \<and> snd (getCachedRenderedPage t k v)
               = v\<lparr>renderedPageCache := Map_delete (renderedPageCache v) k\<rparr>
           \<and> Map_get (renderedPageCache (snd (getCachedRenderedPage t k v))) k = None
           \<and> (\<forall>k'. k' \<noteq> k \<longrightarrow>
                Map_get (renderedPageCache (snd (getCachedRenderedPage t k v))) k'
                = Map_get (renderedPageCache v) k')))"
  by (simp add: getCachedRenderedPage_def Map_get_Map_delete Let_def)

theorem getCachedRenderedPage_lazy_expiry_witness:
  "Map_get (renderedPageCache agedViewer) (''sol/a.pdf'', 3, Num 1) = None
   \<and> getCachedRenderedPage 300000 (''sol/a.pdf'', 3, Num 1) agedViewer = (None, agedViewer)
   \<and> Map_get (renderedPageCache agedViewer) (''sol/a.pdf'', 1, Num 1)
       = Some \<lparr>imageData = 1, timestamp = 0\<rparr>
   \<and> getCachedRenderedPage 299999 (''sol/a.pdf'', 1, Num 1) agedViewer = (Some 1, agedViewer)
   \<and> fst (getCachedRenderedPage 300000 (''sol/a.pdf'', 1, Num 1) agedViewer) = None
   \<and> Map_get (renderedPageCache
        (snd (getCachedRenderedPage 300000 (''sol/a.pdf'', 1, Num 1) agedViewer)))
        (''sol/a.pdf'', 1, Num 1) = None
   \<and> Map_get (renderedPageCache
        (snd (getCachedRenderedPage 300000 (''sol/a.pdf'', 1, Num 1) agedViewer)))
        (''sol/a.pdf'', 2, Num 1) = Some \<lparr>imageData = 2, timestamp = 900000\<rparr>"
proof -
  have absent: "Map_get (renderedPageCache agedViewer) (''sol/a.pdf'', 3, Num 1) = None"
    by (simp add: agedViewer_def Map_get_def)
  have present: "Map_get (renderedPageCache agedViewer) (''sol/a.pdf'', 1, Num 1)
       = Some \<lparr>imageData = 1, timestamp = 0\<rparr>"
    by (simp add: agedViewer_def Map_get_def)
  have other: "Map_get (renderedPageCache agedViewer) (''sol/a.pdf'', 2, Num 1)
       = Some \<lparr>imageData = 2, timestamp = 900000\<rparr>"
    by (simp add: agedViewer_def Map_get_def)
  from getCachedRenderedPage_lazy_expiry [of agedViewer "(''sol/a.pdf'', 3, Num 1)" 300000]
    absent
  have w1: "getCachedRenderedPage 300000 (''sol/a.pdf'', 3, Num 1) agedViewer
       = (None, agedViewer)"
    by blast
  from getCachedRenderedPage_lazy_expiry [of agedViewer "(''sol/a.pdf'', 1, Num 1)" 299999]
    present
  have w2: "getCachedRenderedPage 299999 (''sol/a.pdf'', 1, Num 1) agedViewer
       = (Some 1, agedViewer)"
    by simp
  have late: "(300000::int) - timestamp \<lparr>imageData = 1::nat, timestamp = 0\<rparr> \<ge> 5 * 60 * 1000"
    by simp
  from getCachedRenderedPage_lazy_expiry [of agedViewer "(''sol/a.pdf'', 1, Num 1)" 300000]
    present late
  have miss: "fst (getCachedRenderedPage 300000 (''sol/a.pdf'', 1, Num 1) agedViewer) = None"
    and gone: "Map_get (renderedPageCache
        (snd (getCachedRenderedPage 300000 (''sol/a.pdf'', 1, Num 1) agedViewer)))
        (''sol/a.pdf'', 1, Num 1) = None"
    and rest: "\<forall>k'. k' \<noteq> (''sol/a.pdf'', 1, Num 1) \<longrightarrow>
        Map_get (renderedPageCache
          (snd (getCachedRenderedPage 300000 (''sol/a.pdf'', 1, Num 1) agedViewer))) k'
        = Map_get (renderedPageCache agedViewer) k'"
    by blast+
  have "(''sol/a.pdf'', 2::int, Num 1) \<noteq> (''sol/a.pdf'', 1, Num 1)" by simp
  with rest other have kept: "Map_get (renderedPageCache
        (snd (getCachedRenderedPage 300000 (''sol/a.pdf'', 1, Num 1) agedViewer)))
        (''sol/a.pdf'', 2, Num 1) = Some \<lparr>imageData = 2, timestamp = 900000\<rparr>"
    by metis
  note w3 = miss gone kept
  from absent w1 present w2 w3 show ?thesis by blast
qed


section \<open>Properties of the viewer\<close>

subsection \<open>The example environment\<close>

lemmas pager_defs = runPager_def PDFViewer_constructor_def loadPDF_def loadFresh_def
  loadCached_def docAt_def trim_def isWhiteSpace_def Map_get_def Map_set_def Map_has_def
  Map_size_def Map_delete_def emit_def showError_def cachePDF_def renderPage_def
  keyFingerprint_def getCachedRenderedPage_def cacheRenderedPage_def zoomIn_def setZoom_def
  js_gt_def Let_def

lemma onlineAt_simps [simp]:
  "now (onlineAt t) = t" "pdfjsLib (onlineAt t)"
  "fetchHead (onlineAt t) p = Response True 200"
  "getDocument (onlineAt t) p = Resolved (Some (docAt p))"
  "renderCanvas (onlineAt t) d n s = Some (nat n)"
  by (simp_all add: onlineAt_def)

lemma docAt_simps [simp]:
  "numPages (docAt p) = 3" "fingerprint (docAt p) = Some p"
  by (simp_all add: docAt_def)

lemma loaded_a: "runPager [LoadPDF (onlineAt 0) ''sol/a.pdf''] =
  \<lparr>container = True, pdfDocument = Some (docAt ''sol/a.pdf''), currentPage = 1, totalPages = 3,
   scale = Num 1, isLoading = False,
   pdfCache = [(''sol/a.pdf'', \<lparr>document = docAt ''sol/a.pdf'', loadTime = 0, lastAccess = 0,
      accessCount = 1, cachedTotalPages = 3\<rparr>)],
   maxPdfCacheSize = 5,
   renderedPageCache = [((''sol/a.pdf'', 1, Num 1), \<lparr>imageData = 1, timestamp = 0\<rparr>)],
   maxPageCacheSize = 20,
   events = [HeadRequest ''sol/a.pdf'', GetDocument ''sol/a.pdf'',
             Rendered (''sol/a.pdf'', 1, Num 1)]\<rparr>"
  by (simp add: pager_defs)

lemma runPager_snoc: "runPager (cs @ [c]) = pagerStep c (runPager cs)"
  by (simp add: runPager_def)

lemma zoomed_a: "runPager [LoadPDF (onlineAt 0) ''sol/a.pdf'', ZoomIn (onlineAt 1)] =
  \<lparr>container = True, pdfDocument = Some (docAt ''sol/a.pdf''), currentPage = 1, totalPages = 3,
   scale = Num (5 / 4), isLoading = False,
   pdfCache = [(''sol/a.pdf'', \<lparr>document = docAt ''sol/a.pdf'', loadTime = 0, lastAccess = 0,
      accessCount = 1, cachedTotalPages = 3\<rparr>)],
   maxPdfCacheSize = 5,
   renderedPageCache = [((''sol/a.pdf'', 1, Num 1), \<lparr>imageData = 1, timestamp = 0\<rparr>),
      ((''sol/a.pdf'', 1, Num (5 / 4)), \<lparr>imageData = 1, timestamp = 1\<rparr>)],
   maxPageCacheSize = 20,
   events = [HeadRequest ''sol/a.pdf'', GetDocument ''sol/a.pdf'',
             Rendered (''sol/a.pdf'', 1, Num 1), Rendered (''sol/a.pdf'', 1, Num (5 / 4))]\<rparr>"
  using runPager_snoc [of "[LoadPDF (onlineAt 0) ''sol/a.pdf'']" "ZoomIn (onlineAt 1)"]
  by (simp add: loaded_a zoomIn_def setZoom_def js_gt_def renderPage_def keyFingerprint_def
      docAt_def getCachedRenderedPage_def cacheRenderedPage_def Map_get_def
      Map_set_def Map_has_def Map_size_def emit_def Let_def)

subsection \<open>Loading\<close>

text \<open>
  Claim C9. A call of \<open>loadPDF\<close> on a viewer whose \<open>isLoading\<close> flag is set returns
  normally and leaves the whole state as it was: the document, the page numbers, both caches,
  and the record of requests, so that nothing was fetched.
\<close>

theorem loadPDF_while_loading:
  "PDFViewer.isLoading v \<Longrightarrow> loadPDF env pdfPath v = (Inr (), v)"
  by (simp add: loadPDF_def)

theorem loadPDF_while_loading_witness:
  "PDFViewer.isLoading ((runPager [LoadPDF (onlineAt 0) ''sol/a.pdf''])
      \<lparr>PDFViewer.isLoading := True\<rparr>)
   \<and> loadPDF (onlineAt 1) ''sol/b.pdf''
        ((runPager [LoadPDF (onlineAt 0) ''sol/a.pdf''])\<lparr>PDFViewer.isLoading := True\<rparr>)
      = (Inr (), (runPager [LoadPDF (onlineAt 0) ''sol/a.pdf''])\<lparr>PDFViewer.isLoading := True\<rparr>)"
proof -
  have h: "PDFViewer.isLoading ((runPager [LoadPDF (onlineAt 0) ''sol/a.pdf''])
      \<lparr>PDFViewer.isLoading := True\<rparr>)"
    by simp
  from h loadPDF_while_loading [OF h] show ?thesis by blast
qed


lemma loadCached_result:
  assumes "loadCached env p e v = (r, v')"
  shows "r = Inr () \<and> currentPage v' = 1 \<and> scale v' = scale v
    \<and> PDFViewer.isLoading v' = PDFViewer.isLoading v
    \<and> pdfDocument v' = Some (document e) \<and> totalPages v' = numPages (document e)
    \<and> Map_get (pdfCache v') p
        = Some (e\<lparr>accessCount := accessCount e + 1, lastAccess := now env\<rparr>)"
proof -
  let ?v1 = "v\<lparr>pdfDocument := Some (document e),
                 totalPages := numPages (document e),
                 currentPage := 1,
                 pdfCache := Map_set (pdfCache v) p
                   (e\<lparr>accessCount := accessCount e + 1, lastAccess := now env\<rparr>)\<rparr>"
  from assms have r: "r = Inr ()" and v': "v' = renderPage env 1 ?v1"
    by (simp_all add: loadCached_def Let_def)
  from renderPage_currentPage [of env 1 ?v1] have "currentPage v' = 1" by (simp add: v')
  with r show ?thesis by (simp add: v' Map_get_Map_set)
qed

lemma loadFresh_result:
  assumes "loadFresh env p v = (Inr u, v')"
  shows "currentPage v' = 1 \<and> scale v' = scale v
    \<and> PDFViewer.isLoading v' = PDFViewer.isLoading v
    \<and> (\<exists>d. getDocument env p = Resolved (Some d) \<and> pdfDocument v' = Some d
          \<and> totalPages v' = numPages d
          \<and> Map_get (pdfCache v') p =
             Some \<lparr>document = d, loadTime = now env, lastAccess = now env, accessCount = 1,
                   cachedTotalPages = numPages d\<rparr>)"
proof -
  from assms obtain d where d: "getDocument env p = Resolved (Some d)"
    and v': "v' = renderPage env 1 (cachePDF (now env) p d
       ((emit (GetDocument p) (emit (HeadRequest p) v))
          \<lparr>pdfDocument := Some d, totalPages := numPages d, currentPage := 1\<rparr>))"
    by (auto simp add: loadFresh_def Let_def
        split: if_splits head_result.splits load_result.splits option.splits)
  from renderPage_currentPage [of env 1 "cachePDF (now env) p d
       ((emit (GetDocument p) (emit (HeadRequest p) v))
          \<lparr>pdfDocument := Some d, totalPages := numPages d, currentPage := 1\<rparr>)"]
  have "currentPage v' = 1" by (simp add: v')
  then show ?thesis using d by (simp add: v' cachePDF_stores)
qed

text \<open>
  Claim C3, as stated, fails: \<open>loadPDF\<close> never assigns \<open>scale\<close>. After a first document
  is loaded and zoomed in once, loading a second document succeeds and the scale is still
  1.25.
\<close>

theorem loadPDF_keeps_scale:
  "fst (loadPDF (onlineAt 2) ''sol/b.pdf''
         (runPager [LoadPDF (onlineAt 0) ''sol/a.pdf'', ZoomIn (onlineAt 1)])) = Inr ()
   \<and> scale (snd (loadPDF (onlineAt 2) ''sol/b.pdf''
         (runPager [LoadPDF (onlineAt 0) ''sol/a.pdf'', ZoomIn (onlineAt 1)]))) = Num (5 / 4)
   \<and> Num (5 / 4) \<noteq> Num 1"
  by (simp add: zoomed_a loadPDF_def loadFresh_def trim_def isWhiteSpace_def Map_get_def
      Let_def split_beta)

text \<open>
  Claim C3, amended: whenever \<open>loadPDF\<close> runs on a viewer that is not already loading and
  succeeds, by a hit in the document cache or by a fresh fetch, \<open>currentPage\<close> is 1, the
  scale is what it was before the call, and the document cache holds under the path an entry
  whose document is the current document (\<open>totalPages\<close> being its page count).
\<close>

theorem loadPDF_success:
  assumes "\<not> PDFViewer.isLoading v" and "loadPDF env pdfPath v = (Inr u, v')"
  shows "currentPage v' = 1 \<and> scale v' = scale v
    \<and> (\<exists>e. Map_get (pdfCache v') pdfPath = Some e \<and> pdfDocument v' = Some (document e)
           \<and> totalPages v' = numPages (document e))"
proof (cases "Map_get (pdfCache v) pdfPath")
  case None
  with assms obtain w where w: "loadFresh env pdfPath (v\<lparr>PDFViewer.isLoading := True\<rparr>) = (Inr u, w)"
    and v': "v' = w\<lparr>PDFViewer.isLoading := False\<rparr>"
    by (auto simp add: loadPDF_def Let_def split: if_splits prod.splits sum.splits)
  from loadFresh_result [OF w] show ?thesis by (auto simp add: v')
next
  case (Some e)
  with assms obtain r w where w: "loadCached env pdfPath e (v\<lparr>PDFViewer.isLoading := True\<rparr>) = (r, w)"
    and v': "v' = w\<lparr>PDFViewer.isLoading := False\<rparr>"
    by (auto simp add: loadPDF_def Let_def split: if_splits prod.splits sum.splits)
  from loadCached_result [OF w] show ?thesis by (auto simp add: v')
qed

theorem loadPDF_success_witness:
  "\<not> PDFViewer.isLoading (runPager [] :: nat PDFViewer)
   \<and> fst (loadPDF (onlineAt 0) ''sol/a.pdf'' (runPager [])) = Inr ()
   \<and> currentPage (snd (loadPDF (onlineAt 0) ''sol/a.pdf'' (runPager []))) = 1
   \<and> Map_has (pdfCache (snd (loadPDF (onlineAt 0) ''sol/a.pdf'' (runPager [])))) ''sol/a.pdf''
   \<and> \<not> PDFViewer.isLoading (runPager [LoadPDF (onlineAt 0) ''sol/a.pdf'', ZoomIn (onlineAt 1)])
   \<and> Map_has (pdfCache (runPager [LoadPDF (onlineAt 0) ''sol/a.pdf'', ZoomIn (onlineAt 1)]))
        ''sol/a.pdf''
   \<and> fst (loadPDF (onlineAt 5) ''sol/a.pdf''
        (runPager [LoadPDF (onlineAt 0) ''sol/a.pdf'', ZoomIn (onlineAt 1)])) = Inr ()
   \<and> currentPage (snd (loadPDF (onlineAt 5) ''sol/a.pdf''
        (runPager [LoadPDF (onlineAt 0) ''sol/a.pdf'', ZoomIn (onlineAt 1)]))) = 1
   \<and> scale (snd (loadPDF (onlineAt 5) ''sol/a.pdf''
        (runPager [LoadPDF (onlineAt 0) ''sol/a.pdf'', ZoomIn (onlineAt 1)]))) = Num (5 / 4)"
proof -
  let ?v0 = "runPager [] :: nat PDFViewer"
  let ?v2 = "runPager [LoadPDF (onlineAt 0) ''sol/a.pdf'', ZoomIn (onlineAt 1)]"
  have n0: "\<not> PDFViewer.isLoading ?v0"
    by (simp add: runPager_def PDFViewer_constructor_def)
  have n2: "\<not> PDFViewer.isLoading ?v2" by (simp add: zoomed_a)
  have c2: "Map_has (pdfCache ?v2) ''sol/a.pdf''" by (simp add: zoomed_a Map_has_def)
  have f0: "fst (loadPDF (onlineAt 0) ''sol/a.pdf'' ?v0) = Inr ()"
    by (simp add: runPager_def PDFViewer_constructor_def loadPDF_def loadFresh_def trim_def
        isWhiteSpace_def Map_get_def Let_def split_beta)
  have f2: "fst (loadPDF (onlineAt 5) ''sol/a.pdf'' ?v2) = Inr ()"
    by (simp add: zoomed_a loadPDF_def loadCached_def trim_def isWhiteSpace_def Map_get_def
        Let_def split_beta)
  from f0 have h0: "loadPDF (onlineAt 0) ''sol/a.pdf'' ?v0
      = (Inr (), snd (loadPDF (onlineAt 0) ''sol/a.pdf'' ?v0))"
    by (metis prod.collapse)
  from f2 have h2: "loadPDF (onlineAt 5) ''sol/a.pdf'' ?v2
      = (Inr (), snd (loadPDF (onlineAt 5) ''sol/a.pdf'' ?v2))"
    by (metis prod.collapse)
  note a = loadPDF_success [OF n0 h0]
  note b = loadPDF_success [OF n2 h2]
  from a have a1: "currentPage (snd (loadPDF (onlineAt 0) ''sol/a.pdf'' ?v0)) = 1" by blast
  from a have a2: "Map_has (pdfCache (snd (loadPDF (onlineAt 0) ''sol/a.pdf'' ?v0))) ''sol/a.pdf''"
    by (auto simp add: Map_has_def Map_get_def)
  from b have b1: "currentPage (snd (loadPDF (onlineAt 5) ''sol/a.pdf'' ?v2)) = 1" by blast
  from b have b2: "scale (snd (loadPDF (onlineAt 5) ''sol/a.pdf'' ?v2)) = Num (5 / 4)"
    by (simp add: zoomed_a)
  from n0 f0 a1 a2 n2 c2 f2 b1 b2 show ?thesis by blast
qed

subsection \<open>Zoom\<close>

lemma loadedViewer_eq: "loadedViewer =
  \<lparr>container = True, pdfDocument = Some (docAt ''sol/a.pdf''), currentPage = 1, totalPages = 3,
   scale = Num 1, isLoading = False,
   pdfCache = [(''sol/a.pdf'', \<lparr>document = docAt ''sol/a.pdf'', loadTime = 0, lastAccess = 0,
      accessCount = 1, cachedTotalPages = 3\<rparr>)],
   maxPdfCacheSize = 5,
   renderedPageCache = [((''sol/a.pdf'', 1, Num 1), \<lparr>imageData = 1, timestamp = 0\<rparr>)],
   maxPageCacheSize = 20,
   events = [HeadRequest ''sol/a.pdf'', GetDocument ''sol/a.pdf'',
             Rendered (''sol/a.pdf'', 1, Num 1)]\<rparr>"
  using loaded_a by (simp add: loadedViewer_def runPager_def)

text \<open>
  Claim C7 is what the code documents (\<open>setZoom\<close>: ``Zoom scale (0.5 to 3.0)'') and
  what its guard \<open>scale < 0.5 || scale > 3.0\<close> is written for, and the code breaks it at
  one value. With a document loaded at scale 1, \<open>setZoom(3.5)\<close> and \<open>setZoom(0.4)\<close>
  are ignored, as the claim says. Both comparisons are false for \<open>NaN\<close>, so
  \<open>setZoom(NaN)\<close> is accepted: the scale becomes \<open>NaN\<close>, which is not within
  [0.5, 3.0], and the current page is rendered and cached under a key whose scale is
  \<open>NaN\<close>. \<open>resetZoom\<close> hands \<open>setZoom\<close> the lesser of 2.0 and the quotient of
  two widths; when that quotient is \<open>NaN\<close>, so is the scale afterwards.
\<close>

theorem setZoom_accepts_NaN:
  "pdfDocument loadedViewer = Some (docAt ''sol/a.pdf'')
   \<and> scale loadedViewer = Num 1
   \<and> setZoom (onlineAt 1) (Num 3.5) loadedViewer = loadedViewer
   \<and> setZoom (onlineAt 1) (Num 0.4) loadedViewer = loadedViewer
   \<and> scale (setZoom (onlineAt 1) NaN loadedViewer) = NaN
   \<and> \<not> scaleInRange (scale (setZoom (onlineAt 1) NaN loadedViewer))
   \<and> events (setZoom (onlineAt 1) NaN loadedViewer)
        = events loadedViewer @ [Rendered (''sol/a.pdf'', 1, NaN)]
   \<and> Map_has (renderedPageCache (setZoom (onlineAt 1) NaN loadedViewer)) (''sol/a.pdf'', 1, NaN)
   \<and> scale (resetZoom (onlineAt 1) (Some NaN) loadedViewer) = NaN
   \<and> \<not> scaleInRange (scale (resetZoom (onlineAt 1) (Some NaN) loadedViewer))"
  by (simp add: loadedViewer_eq setZoom_def resetZoom_def js_gt_def scaleInRange_def
      renderPage_def keyFingerprint_def getCachedRenderedPage_def cacheRenderedPage_def
      Map_get_def Map_set_def Map_has_def Map_size_def emit_def Let_def)

section \<open>Eviction when a cache is full\<close>

lemma Map_delete_head:
  assumes "distinct (Map_keys ((k, x) # rest))"
  shows "Map_delete ((k, x) # rest) k = rest"
proof -
  from assms have "k \<notin> fst ` set rest" by (simp add: Map_keys_def)
  then have "filter (\<lambda>e. fst e \<noteq> k) rest = rest"
    by (intro filter_True) auto
  then show ?thesis by (simp add: Map_delete_def)
qed

lemma Map_has_iff: "Map_has m k \<longleftrightarrow> k \<in> set (Map_keys m)"
  by (simp add: Map_has_def Map_keys_def map_of_eq_None_iff)

lemma Map_set_absent: "\<not> Map_has m k \<Longrightarrow> Map_set m k x = m @ [(k, x)]"
  by (simp add: Map_set_def)

lemma Map_has_Map_delete: "Map_has (Map_delete m k) k' \<longleftrightarrow> k' \<noteq> k \<and> Map_has m k'"
  by (simp add: Map_has_def map_of_Map_delete)

lemma Map_size_Map_delete:
  assumes "distinct (Map_keys m)" and "Map_has m k"
  shows "Suc (Map_size (Map_delete m k)) = Map_size m"
  using assms
proof (induction m)
  case Nil
  then show ?case by (simp add: Map_has_def)
next
  case (Cons e m)
  show ?case
  proof (cases "fst e = k")
    case True
    with Cons.prems(1) have "Map_delete (e # m) k = m"
      using Map_delete_head [of "fst e" "snd e" m] by (cases e) simp
    then show ?thesis by (simp add: Map_size_def)
  next
    case False
    with Cons.prems have "Map_has m k" "distinct (Map_keys m)"
      by (auto simp add: Map_has_def Map_keys_def)
    with Cons.IH False show ?thesis by (simp add: Map_size_def Map_delete_def)
  qed
qed

lemma findOldest_none:
  "\<forall>e\<in>set m. \<not> lastAccess (snd e) < t \<Longrightarrow> findOldest m acc t = acc"
  by (induction m arbitrary: acc) auto

lemma findOldest_least:
  assumes "\<exists>e\<in>set m. lastAccess (snd e) < t"
  shows "\<exists>p e. findOldest m acc t = Some p \<and> (p, e) \<in> set m \<and> lastAccess e < t
           \<and> (\<forall>e'\<in>set m. lastAccess e \<le> lastAccess (snd e'))"
  using assms
proof (induction m arbitrary: acc t)
  case Nil
  then show ?case by simp
next
  case (Cons a m)
  obtain path data where a: "a = (path, data)" by (cases a)
  show ?case
  proof (cases "lastAccess data < t")
    case True
    show ?thesis
    proof (cases "\<exists>e\<in>set m. lastAccess (snd e) < lastAccess data")
      case True
      from Cons.IH [OF True, of "Some path"] obtain p e where
        pe: "findOldest m (Some path) (lastAccess data) = Some p" "(p, e) \<in> set m"
          "lastAccess e < lastAccess data" "\<forall>e'\<in>set m. lastAccess e \<le> lastAccess (snd e')"
        by blast
      with \<open>lastAccess data < t\<close> show ?thesis
        by (intro exI [of _ p] exI [of _ e]) (auto simp add: a)
    next
      case False
      then have "findOldest m (Some path) (lastAccess data) = Some path"
        by (intro findOldest_none) auto
      with False \<open>lastAccess data < t\<close> show ?thesis
        by (intro exI [of _ path] exI [of _ data]) (auto simp add: a)
    qed
  next
    case False
    with Cons.prems have ex: "\<exists>e\<in>set m. lastAccess (snd e) < t" by (auto simp add: a)
    from Cons.IH [OF ex, of acc] obtain p e where
      pe: "findOldest m acc t = Some p" "(p, e) \<in> set m"
        "lastAccess e < t" "\<forall>e'\<in>set m. lastAccess e \<le> lastAccess (snd e')"
      by blast
    with False show ?thesis
      by (intro exI [of _ p] exI [of _ e]) (auto simp add: a)
  qed
qed

lemma loadImageFromCache_evicts:
  assumes "distinct (Map_keys (imageCache c))"
    and "Map_size (imageCache c) = maxCacheSize c" and "0 < maxCacheSize c"
    and "\<not> Map_has (imageCache c) path" and "preload path = Some im"
  shows "\<exists>firstKey removed rest. imageCache c = (firstKey, removed) # rest
     \<and> loadImageFromCache t preload path c =
         (Inr im, c\<lparr>imageCache := rest @ [(path, \<lparr>img = im, imgTimestamp = t, imgAccessCount = 1,
                                              imgSize = estimateImageSize im\<rparr>)],
                    cleared := cleared c @ [img removed]\<rparr>)"
proof -
  from assms(2,3) obtain firstKey removed rest where
    m: "imageCache c = (firstKey, removed) # rest"
    by (cases "imageCache c") (auto simp add: Map_size_def)
  from assms(1) m have del: "Map_delete ((firstKey, removed) # rest) firstKey = rest"
    using Map_delete_head [of firstKey removed rest] by simp
  from assms(4) m have absent: "\<not> Map_has rest path" "Map_get (imageCache c) path = None"
    by (auto simp add: Map_has_def Map_get_def split: if_splits)
  have "loadImageFromCache t preload path c =
         (Inr im, c\<lparr>imageCache := rest @ [(path, \<lparr>img = im, imgTimestamp = t, imgAccessCount = 1,
                                              imgSize = estimateImageSize im\<rparr>)],
                    cleared := cleared c @ [img removed]\<rparr>)"
    using assms(2,5) absent
    by (simp add: loadImageFromCache_def Let_def m del Map_set_absent)
  with m show ?thesis by blast
qed

lemma cacheRenderedPage_evicts:
  assumes "distinct (Map_keys (renderedPageCache v))"
    and "Map_size (renderedPageCache v) = maxPageCacheSize v" and "0 < maxPageCacheSize v"
    and "\<not> Map_has (renderedPageCache v) key"
  shows "\<exists>firstKey removed rest. renderedPageCache v = (firstKey, removed) # rest
     \<and> cacheRenderedPage t key i v =
          v\<lparr>renderedPageCache := rest @ [(key, \<lparr>imageData = i, timestamp = t\<rparr>)]\<rparr>"
proof -
  from assms(2,3) obtain firstKey removed rest where
    m: "renderedPageCache v = (firstKey, removed) # rest"
    by (cases "renderedPageCache v") (auto simp add: Map_size_def)
  from assms(1) m have del: "Map_delete ((firstKey, removed) # rest) firstKey = rest"
    using Map_delete_head [of firstKey removed rest] by simp
  from assms(4) m have absent: "\<not> Map_has rest key"
    by (auto simp add: Map_has_def split: if_splits)
  have "cacheRenderedPage t key i v =
          v\<lparr>renderedPageCache := rest @ [(key, \<lparr>imageData = i, timestamp = t\<rparr>)]\<rparr>"
    using assms(2) absent
    by (simp add: cacheRenderedPage_def Let_def m del Map_set_absent)
  with m show ?thesis by blast
qed

lemma cachePDF_evicts:
  assumes "distinct (Map_keys (pdfCache v))"
    and "Map_size (pdfCache v) = maxPdfCacheSize v"
    and "\<not> Map_has (pdfCache v) path"
    and "[] \<notin> set (Map_keys (pdfCache v))"
    and "\<exists>e\<in>set (pdfCache v). lastAccess (snd e) < t"
  shows "\<exists>victim removed. Map_get (pdfCache v) victim = Some removed
     \<and> (\<forall>e\<in>set (pdfCache v). lastAccess removed \<le> lastAccess (snd e))
     \<and> cachePDF t path d v =
          v\<lparr>events := events v @ [Destroyed (document removed)],
            pdfCache := Map_delete (pdfCache v) victim @
              [(path, \<lparr>document = d, loadTime = t, lastAccess = t, accessCount = 1,
                       cachedTotalPages = numPages d\<rparr>)]\<rparr>
     \<and> Map_size (pdfCache (cachePDF t path d v)) = maxPdfCacheSize v"
proof -
  from findOldest_least [OF assms(5), of None] obtain p e where
    pe: "findOldest (pdfCache v) None t = Some p" "(p, e) \<in> set (pdfCache v)"
      "\<forall>e'\<in>set (pdfCache v). lastAccess e \<le> lastAccess (snd e')"
    by blast
  from pe(2) assms(1) have get: "Map_get (pdfCache v) p = Some e"
    by (simp add: Map_get_def Map_keys_def)
  from pe(2) assms(4) have "p \<noteq> []" by (force simp add: Map_keys_def)
  then have tr: "truthy (Some p)" by (simp add: truthy_def)
  from assms(3) have absent: "\<not> Map_has (Map_delete (pdfCache v) p) path"
    by (simp add: Map_has_Map_delete)
  have eq: "cachePDF t path d v =
          v\<lparr>events := events v @ [Destroyed (document e)],
            pdfCache := Map_delete (pdfCache v) p @
              [(path, \<lparr>document = d, loadTime = t, lastAccess = t, accessCount = 1,
                       cachedTotalPages = numPages d\<rparr>)]\<rparr>"
    using assms(2) pe(1) tr get absent
    by (simp add: cachePDF_def Let_def emit_def Map_set_absent)
  from get have "Map_has (pdfCache v) p" by (simp add: Map_has_def Map_get_def)
  from Map_size_Map_delete [OF assms(1) this] assms(2)
  have "Map_size (pdfCache (cachePDF t path d v)) = maxPdfCacheSize v"
    by (simp add: eq Map_size_def)
  with get pe(3) eq show ?thesis by blast
qed

text \<open>
  Claim C1, as stated, fails for the image cache (and in the same way for the rendered-page
  cache): a hit does not move or re-stamp an entry, and the entry evicted is the first key of
  the map, the one inserted first. Twenty images are loaded at times 1 to 20, the first one
  is loaded again (a hit) at time 21, and a twenty-first image is loaded at time 22: the
  entry evicted and cleared is the first one, the most recently accessed of all, and the
  second one, accessed last at time 2, stays.
\<close>

theorem image_cache_evicts_recently_used:
  "Map_keys (imageCache (loadImages
      [(1, ''01''), (2, ''02''), (3, ''03''), (4, ''04''), (5, ''05''), (6, ''06''), (7, ''07''), (8, ''08''), (9, ''09''), (10, ''10''), (11, ''11''), (12, ''12''), (13, ''13''), (14, ''14''), (15, ''15''), (16, ''16''), (17, ''17''), (18, ''18''), (19, ''19''), (20, ''20''), (21, ''01''), (22, ''21'')]))
    = [''02'', ''03'', ''04'', ''05'', ''06'', ''07'', ''08'', ''09'', ''10'', ''11'', ''12'', ''13'', ''14'', ''15'', ''16'', ''17'', ''18'', ''19'', ''20'', ''21'']
   \<and> map src (cleared (loadImages
      [(1, ''01''), (2, ''02''), (3, ''03''), (4, ''04''), (5, ''05''), (6, ''06''), (7, ''07''), (8, ''08''), (9, ''09''), (10, ''10''), (11, ''11''), (12, ''12''), (13, ''13''), (14, ''14''), (15, ''15''), (16, ''16''), (17, ''17''), (18, ''18''), (19, ''19''), (20, ''20''), (21, ''01''), (22, ''21'')])) = [''01'']"
  by (simp add: loadImages_def ContentController_constructor_def loadImageFromCache_def
      picture_def Map_get_def Map_set_def Map_has_def Map_size_def Map_delete_def Map_keys_def
      estimateImageSize_def Let_def)

lemma loadImageFromCache_room:
  assumes "Map_size (imageCache c) < maxCacheSize c"
    and "\<not> Map_has (imageCache c) path" and "preload path = Some im"
  shows "loadImageFromCache t preload path c =
     (Inr im, c\<lparr>imageCache := imageCache c @ [(path, \<lparr>img = im, imgTimestamp = t,
                  imgAccessCount = 1, imgSize = estimateImageSize im\<rparr>)]\<rparr>)"
proof -
  from assms(2) have "Map_get (imageCache c) path = None"
    by (simp add: Map_has_def Map_get_def)
  with assms show ?thesis
    by (simp add: loadImageFromCache_def Let_def Map_set_absent)
qed

lemma cacheRenderedPage_room:
  assumes "Map_size (renderedPageCache v) < maxPageCacheSize v"
    and "\<not> Map_has (renderedPageCache v) key"
  shows "cacheRenderedPage t key i v =
     v\<lparr>renderedPageCache := renderedPageCache v @ [(key, \<lparr>imageData = i, timestamp = t\<rparr>)]\<rparr>"
  using assms by (simp add: cacheRenderedPage_def Let_def Map_set_absent)

lemma cachePDF_room:
  assumes "Map_size (pdfCache v) < maxPdfCacheSize v" and "\<not> Map_has (pdfCache v) path"
  shows "cachePDF t path d v =
     v\<lparr>pdfCache := pdfCache v @
        [(path, \<lparr>document = d, loadTime = t, lastAccess = t, accessCount = 1,
                 cachedTotalPages = numPages d\<rparr>)]\<rparr>"
  using assms by (simp add: cachePDF_def Let_def Map_set_absent)

text \<open>
  Claim C1, amended. In each cache (a map, so with distinct keys), inserting an absent key
  while there is room appends the new entry and evicts nothing; when the cache holds as many
  entries as its capacity, it evicts exactly one entry before the new one is appended: in the image cache and in the rendered-page cache the entry inserted first (the
  image cache clears the image of that entry, once; the page cache has nothing to dispose
  of); in the document cache, whose paths are non-empty, and provided some entry was
  accessed before the current time, an entry whose \<open>lastAccess\<close> is least, whose
  document is destroyed, once, in the same call. Every other entry stays in place.
\<close>

theorem caches_evict_one_entry:
  "(distinct (Map_keys (imageCache c)) \<and> Map_size (imageCache c) = maxCacheSize c
      \<and> 0 < maxCacheSize c \<and> \<not> Map_has (imageCache c) imagePath
      \<and> preloadImage imagePath = Some im \<longrightarrow>
      (\<exists>firstKey removed rest. imageCache c = (firstKey, removed) # rest
         \<and> loadImageFromCache t preloadImage imagePath c =
             (Inr im,
              c\<lparr>imageCache := rest @ [(imagePath, \<lparr>img = im, imgTimestamp = t,
                     imgAccessCount = 1, imgSize = estimateImageSize im\<rparr>)],
                cleared := cleared c @ [img removed]\<rparr>)))
   \<and> (distinct (Map_keys (renderedPageCache v)) \<and> Map_size (renderedPageCache v) = maxPageCacheSize v
      \<and> 0 < maxPageCacheSize v \<and> \<not> Map_has (renderedPageCache v) cacheKey \<longrightarrow>
      (\<exists>firstKey removed rest. renderedPageCache v = (firstKey, removed) # rest
         \<and> cacheRenderedPage t cacheKey i v =
             v\<lparr>renderedPageCache := rest @ [(cacheKey, \<lparr>imageData = i, timestamp = t\<rparr>)]\<rparr>))
   \<and> (distinct (Map_keys (pdfCache v)) \<and> Map_size (pdfCache v) = maxPdfCacheSize v
      \<and> \<not> Map_has (pdfCache v) pdfPath \<and> [] \<notin> set (Map_keys (pdfCache v))
      \<and> (\<exists>e\<in>set (pdfCache v). lastAccess (snd e) < t) \<longrightarrow>
      (\<exists>victim removed. Map_get (pdfCache v) victim = Some removed
         \<and> (\<forall>e\<in>set (pdfCache v). lastAccess removed \<le> lastAccess (snd e))
         \<and> cachePDF t pdfPath d v =
              v\<lparr>events := events v @ [Destroyed (document removed)],
                pdfCache := Map_delete (pdfCache v) victim @
                  [(pdfPath, \<lparr>document = d, loadTime = t, lastAccess = t, accessCount = 1,
                              cachedTotalPages = numPages d\<rparr>)]\<rparr>
         \<and> Map_size (pdfCache (cachePDF t pdfPath d v)) = maxPdfCacheSize v))
   \<and> (Map_size (imageCache c) < maxCacheSize c \<and> \<not> Map_has (imageCache c) imagePath
      \<and> preloadImage imagePath = Some im \<longrightarrow>
      loadImageFromCache t preloadImage imagePath c =
        (Inr im,
         c\<lparr>imageCache := imageCache c @ [(imagePath, \<lparr>img = im, imgTimestamp = t,
                imgAccessCount = 1, imgSize = estimateImageSize im\<rparr>)]\<rparr>))
   \<and> (Map_size (renderedPageCache v) < maxPageCacheSize v
      \<and> \<not> Map_has (renderedPageCache v) cacheKey \<longrightarrow>
      cacheRenderedPage t cacheKey i v =
        v\<lparr>renderedPageCache :=
            renderedPageCache v @ [(cacheKey, \<lparr>imageData = i, timestamp = t\<rparr>)]\<rparr>)
   \<and> (Map_size (pdfCache v) < maxPdfCacheSize v \<and> \<not> Map_has (pdfCache v) pdfPath \<longrightarrow>
      cachePDF t pdfPath d v =
        v\<lparr>pdfCache := pdfCache v @
           [(pdfPath, \<lparr>document = d, loadTime = t, lastAccess = t, accessCount = 1,
                       cachedTotalPages = numPages d\<rparr>)]\<rparr>)"
  using loadImageFromCache_evicts [of c imagePath preloadImage im t]
    cacheRenderedPage_evicts [of v cacheKey t i]
    cachePDF_evicts [of v pdfPath t d]
    loadImageFromCache_room [of c imagePath preloadImage im t]
    cacheRenderedPage_room [of v cacheKey t i]
    cachePDF_room [of v pdfPath t d]
  by blast

lemma two_used: "(runPager [LoadPDF (onlineAt 0) ''sol/a.pdf'', LoadPDF (onlineAt 10) ''sol/b.pdf'',
      LoadPDF (onlineAt 20) ''sol/a.pdf''])\<lparr>maxPdfCacheSize := 2\<rparr> =
  \<lparr>container = True, pdfDocument = Some (docAt ''sol/a.pdf''), currentPage = 1, totalPages = 3,
   scale = Num 1, isLoading = False,
   pdfCache = [(''sol/a.pdf'', \<lparr>document = docAt ''sol/a.pdf'', loadTime = 0, lastAccess = 20,
      accessCount = 2, cachedTotalPages = 3\<rparr>),
      (''sol/b.pdf'', \<lparr>document = docAt ''sol/b.pdf'', loadTime = 10, lastAccess = 10,
      accessCount = 1, cachedTotalPages = 3\<rparr>)],
   maxPdfCacheSize = 2,
   renderedPageCache = [((''sol/a.pdf'', 1, Num 1), \<lparr>imageData = 1, timestamp = 0\<rparr>),
     ((''sol/b.pdf'', 1, Num 1), \<lparr>imageData = 1, timestamp = 10\<rparr>)],
   maxPageCacheSize = 20,
   events = [HeadRequest ''sol/a.pdf'', GetDocument ''sol/a.pdf'',
             Rendered (''sol/a.pdf'', 1, Num 1),
             HeadRequest ''sol/b.pdf'', GetDocument ''sol/b.pdf'',
             Rendered (''sol/b.pdf'', 1, Num 1),
             DrawnFromCache (''sol/a.pdf'', 1, Num 1)]\<rparr>"
  by (simp add: pager_defs)

theorem caches_evict_one_entry_witness:
  "Map_size (imageCache (agedController\<lparr>maxCacheSize := 3\<rparr>)) = 3
   \<and> \<not> Map_has (imageCache (agedController\<lparr>maxCacheSize := 3\<rparr>)) ''mun/d.png''
   \<and> Map_keys (imageCache (snd (loadImageFromCache 700000 picture ''mun/d.png''
        (agedController\<lparr>maxCacheSize := 3\<rparr>)))) = [''mun/b.png'', ''mun/c.png'', ''mun/d.png'']
   \<and> map src (cleared (snd (loadImageFromCache 700000 picture ''mun/d.png''
        (agedController\<lparr>maxCacheSize := 3\<rparr>)))) = [''mun/a.png'']
   \<and> Map_size (renderedPageCache (agedViewer\<lparr>maxPageCacheSize := 2\<rparr>)) = 2
   \<and> Map_keys (renderedPageCache (cacheRenderedPage 900001 (''sol/a.pdf'', 3, Num 1) 3
        (agedViewer\<lparr>maxPageCacheSize := 2\<rparr>)))
       = [(''sol/a.pdf'', 2, Num 1), (''sol/a.pdf'', 3, Num 1)]
   \<and> Map_keys (pdfCache ((runPager [LoadPDF (onlineAt 0) ''sol/a.pdf'',
          LoadPDF (onlineAt 10) ''sol/b.pdf'', LoadPDF (onlineAt 20) ''sol/a.pdf''])
          \<lparr>maxPdfCacheSize := 2\<rparr>)) = [''sol/a.pdf'', ''sol/b.pdf'']
   \<and> Map_keys (pdfCache (cachePDF 30 ''sol/c.pdf'' (docAt ''sol/c.pdf'')
        ((runPager [LoadPDF (onlineAt 0) ''sol/a.pdf'',
          LoadPDF (onlineAt 10) ''sol/b.pdf'', LoadPDF (onlineAt 20) ''sol/a.pdf''])
          \<lparr>maxPdfCacheSize := 2\<rparr>))) = [''sol/a.pdf'', ''sol/c.pdf'']
   \<and> events (cachePDF 30 ''sol/c.pdf'' (docAt ''sol/c.pdf'')
        ((runPager [LoadPDF (onlineAt 0) ''sol/a.pdf'',
          LoadPDF (onlineAt 10) ''sol/b.pdf'', LoadPDF (onlineAt 20) ''sol/a.pdf''])
          \<lparr>maxPdfCacheSize := 2\<rparr>))
       = events ((runPager [LoadPDF (onlineAt 0) ''sol/a.pdf'',
          LoadPDF (onlineAt 10) ''sol/b.pdf'', LoadPDF (onlineAt 20) ''sol/a.pdf''])
          \<lparr>maxPdfCacheSize := 2\<rparr>) @ [Destroyed (docAt ''sol/b.pdf'')]
   \<and> Map_size (imageCache agedController) < maxCacheSize agedController
   \<and> Map_keys (imageCache (snd (loadImageFromCache 700000 picture ''mun/d.png''
        agedController)))
       = [''mun/a.png'', ''mun/b.png'', ''mun/c.png'', ''mun/d.png'']
   \<and> cleared (snd (loadImageFromCache 700000 picture ''mun/d.png'' agedController)) = []
   \<and> Map_size (renderedPageCache agedViewer) < maxPageCacheSize agedViewer
   \<and> Map_keys (renderedPageCache (cacheRenderedPage 900001 (''sol/a.pdf'', 3, Num 1) 3
        agedViewer))
       = [(''sol/a.pdf'', 1, Num 1), (''sol/a.pdf'', 2, Num 1), (''sol/a.pdf'', 3, Num 1)]
   \<and> Map_size (pdfCache agedViewer) < maxPdfCacheSize agedViewer
   \<and> Map_keys (pdfCache (cachePDF 30 ''sol/c.pdf'' (docAt ''sol/c.pdf'') agedViewer))
       = [''sol/a.pdf'', ''sol/b.pdf'', ''sol/c.pdf'']
   \<and> events (cachePDF 30 ''sol/c.pdf'' (docAt ''sol/c.pdf'') agedViewer) = []"
proof -
  let ?c = "agedController\<lparr>maxCacheSize := 3\<rparr>"
  let ?v = "agedViewer\<lparr>maxPageCacheSize := 2\<rparr>"
  let ?w = "(runPager [LoadPDF (onlineAt 0) ''sol/a.pdf'',
          LoadPDF (onlineAt 10) ''sol/b.pdf'', LoadPDF (onlineAt 20) ''sol/a.pdf''])
          \<lparr>maxPdfCacheSize := 2\<rparr>"
  have ic: "imageCache ?c = imageCache agedController" by simp
  have c1: "distinct (Map_keys (imageCache ?c))"
    and c2: "Map_size (imageCache ?c) = maxCacheSize ?c" and c3: "0 < maxCacheSize ?c"
    and c4: "\<not> Map_has (imageCache ?c) ''mun/d.png''"
    and c5: "picture ''mun/d.png''
       = Some \<lparr>src = ''mun/d.png'', naturalWidth = 800, naturalHeight = 600\<rparr>"
    by (simp_all add: agedController_def Map_keys_def Map_size_def Map_has_def picture_def)
  from caches_evict_one_entry [where c = ?c and imagePath = "''mun/d.png''"
      and preloadImage = picture and t = 700000
      and im = "\<lparr>src = ''mun/d.png'', naturalWidth = 800, naturalHeight = 600\<rparr>",
      THEN conjunct1] c1 c2 c3 c4 c5
  obtain firstKey removed rest where
    i1: "imageCache ?c = (firstKey, removed) # rest"
    and i2: "loadImageFromCache 700000 picture ''mun/d.png'' ?c =
      (Inr \<lparr>src = ''mun/d.png'', naturalWidth = 800, naturalHeight = 600\<rparr>,
       ?c\<lparr>imageCache := rest @ [(''mun/d.png'',
            \<lparr>img = \<lparr>src = ''mun/d.png'', naturalWidth = 800, naturalHeight = 600\<rparr>,
             imgTimestamp = 700000, imgAccessCount = 1,
             imgSize = estimateImageSize
               \<lparr>src = ''mun/d.png'', naturalWidth = 800, naturalHeight = 600\<rparr>\<rparr>)],
          cleared := cleared ?c @ [img removed]\<rparr>)"
    by blast
  from i1 have i3: "Map_keys rest = [''mun/b.png'', ''mun/c.png'']"
    and i4: "src (img removed) = ''mun/a.png''"
    by (auto simp add: agedController_def Map_keys_def)
  have r1: "Map_keys (imageCache (snd (loadImageFromCache 700000 picture ''mun/d.png'' ?c)))
      = [''mun/b.png'', ''mun/c.png'', ''mun/d.png'']"
    using i3 by (simp add: i2 Map_keys_def)
  have r2: "map src (cleared (snd (loadImageFromCache 700000 picture ''mun/d.png'' ?c)))
      = [''mun/a.png'']"
  proof -
    have "cleared ?c = []" by (simp add: agedController_def)
    with i4 show ?thesis by (simp add: i2)
  qed
  have p1: "distinct (Map_keys (renderedPageCache ?v))"
    and p2: "Map_size (renderedPageCache ?v) = maxPageCacheSize ?v"
    and p3: "0 < maxPageCacheSize ?v"
    and p4: "\<not> Map_has (renderedPageCache ?v) (''sol/a.pdf'', 3, Num 1)"
    by (simp_all add: agedViewer_def Map_keys_def Map_size_def Map_has_def)
  from caches_evict_one_entry [where v = ?v and cacheKey = "(''sol/a.pdf'', 3, Num 1)"
      and t = 900001 and i = 3, THEN conjunct2, THEN conjunct1] p1 p2 p3 p4
  obtain firstKey' removed' rest' where
    q1: "renderedPageCache ?v = (firstKey', removed') # rest'"
    and q2: "cacheRenderedPage 900001 (''sol/a.pdf'', 3, Num 1) 3 ?v =
       ?v\<lparr>renderedPageCache := rest' @
          [((''sol/a.pdf'', 3, Num 1), \<lparr>imageData = 3, timestamp = 900001\<rparr>)]\<rparr>"
    by blast
  from q1 have "Map_keys rest' = [(''sol/a.pdf'', 2, Num 1)]"
    by (auto simp add: agedViewer_def Map_keys_def)
  then have r3: "Map_keys (renderedPageCache
        (cacheRenderedPage 900001 (''sol/a.pdf'', 3, Num 1) 3 ?v))
       = [(''sol/a.pdf'', 2, Num 1), (''sol/a.pdf'', 3, Num 1)]"
    by (simp add: q2 Map_keys_def)
  have d1: "distinct (Map_keys (pdfCache ?w))"
    and d2: "Map_size (pdfCache ?w) = maxPdfCacheSize ?w"
    and d3: "\<not> Map_has (pdfCache ?w) ''sol/c.pdf''"
    and d4: "[] \<notin> set (Map_keys (pdfCache ?w))"
    and d5: "\<exists>e\<in>set (pdfCache ?w). lastAccess (snd e) < 30"
    and d6: "Map_keys (pdfCache ?w) = [''sol/a.pdf'', ''sol/b.pdf'']"
    by (simp_all add: two_used Map_keys_def Map_size_def Map_has_def)
  from caches_evict_one_entry [where v = ?w and pdfPath = "''sol/c.pdf''"
      and t = 30 and d = "docAt ''sol/c.pdf''", THEN conjunct2, THEN conjunct2,
      THEN conjunct1] d1 d2 d3 d4 d5
  obtain victim gone where
    e1: "Map_get (pdfCache ?w) victim = Some gone"
    and e2: "\<forall>e\<in>set (pdfCache ?w). lastAccess gone \<le> lastAccess (snd e)"
    and e3: "cachePDF 30 ''sol/c.pdf'' (docAt ''sol/c.pdf'') ?w =
       ?w\<lparr>events := events ?w @ [Destroyed (document gone)],
          pdfCache := Map_delete (pdfCache ?w) victim @
             [(''sol/c.pdf'', \<lparr>document = docAt ''sol/c.pdf'', loadTime = 30, lastAccess = 30,
                accessCount = 1, cachedTotalPages = numPages (docAt ''sol/c.pdf'')\<rparr>)]\<rparr>"
    by blast
  from e1 e2 have vic: "victim = ''sol/b.pdf''" and gone: "document gone = docAt ''sol/b.pdf''"
    by (auto simp add: two_used Map_get_def split: if_splits)
  have r4: "Map_keys (pdfCache (cachePDF 30 ''sol/c.pdf'' (docAt ''sol/c.pdf'') ?w))
      = [''sol/a.pdf'', ''sol/c.pdf'']"
  proof -
    from e3 have "pdfCache (cachePDF 30 ''sol/c.pdf'' (docAt ''sol/c.pdf'') ?w) =
        Map_delete (pdfCache ?w) victim @
             [(''sol/c.pdf'', \<lparr>document = docAt ''sol/c.pdf'', loadTime = 30, lastAccess = 30,
                accessCount = 1, cachedTotalPages = numPages (docAt ''sol/c.pdf'')\<rparr>)]"
      by simp
    moreover have "Map_keys (Map_delete (pdfCache ?w) ''sol/b.pdf'') = [''sol/a.pdf'']"
      by (simp add: two_used Map_keys_def Map_delete_def)
    ultimately show ?thesis by (simp add: vic Map_keys_def)
  qed
  have r5: "events (cachePDF 30 ''sol/c.pdf'' (docAt ''sol/c.pdf'') ?w)
      = events ?w @ [Destroyed (docAt ''sol/b.pdf'')]"
    by (simp add: e3 gone)
  have u1: "Map_size (imageCache agedController) < maxCacheSize agedController"
    and u2: "\<not> Map_has (imageCache agedController) ''mun/d.png''"
    and u3: "cleared agedController = []"
    and u4: "Map_keys (imageCache agedController) = [''mun/a.png'', ''mun/b.png'', ''mun/c.png'']"
    by (simp_all add: agedController_def Map_size_def Map_has_def Map_keys_def)
  from caches_evict_one_entry [where c = agedController and imagePath = "''mun/d.png''"
      and preloadImage = picture and t = 700000
      and im = "\<lparr>src = ''mun/d.png'', naturalWidth = 800, naturalHeight = 600\<rparr>",
      THEN conjunct2, THEN conjunct2, THEN conjunct2, THEN conjunct1]
    u1 u2 c5
  have "loadImageFromCache 700000 picture ''mun/d.png'' agedController =
      (Inr \<lparr>src = ''mun/d.png'', naturalWidth = 800, naturalHeight = 600\<rparr>,
       agedController\<lparr>imageCache := imageCache agedController @ [(''mun/d.png'',
            \<lparr>img = \<lparr>src = ''mun/d.png'', naturalWidth = 800, naturalHeight = 600\<rparr>,
             imgTimestamp = 700000, imgAccessCount = 1,
             imgSize = estimateImageSize
               \<lparr>src = ''mun/d.png'', naturalWidth = 800, naturalHeight = 600\<rparr>\<rparr>)]\<rparr>)"
    by blast
  with u3 u4 have r6: "Map_keys (imageCache (snd (loadImageFromCache 700000 picture
        ''mun/d.png'' agedController)))
       = [''mun/a.png'', ''mun/b.png'', ''mun/c.png'', ''mun/d.png'']"
    and r7: "cleared (snd (loadImageFromCache 700000 picture ''mun/d.png'' agedController)) = []"
    by (simp_all add: Map_keys_def)
  have w1: "Map_size (renderedPageCache agedViewer) < maxPageCacheSize agedViewer"
    and w2: "\<not> Map_has (renderedPageCache agedViewer) (''sol/a.pdf'', 3, Num 1)"
    and w3: "Map_keys (renderedPageCache agedViewer)
       = [(''sol/a.pdf'', 1, Num 1), (''sol/a.pdf'', 2, Num 1)]"
    and w4: "Map_size (pdfCache agedViewer) < maxPdfCacheSize agedViewer"
    and w5: "\<not> Map_has (pdfCache agedViewer) ''sol/c.pdf''"
    and w6: "Map_keys (pdfCache agedViewer) = [''sol/a.pdf'', ''sol/b.pdf'']"
    and w7: "events agedViewer = []"
    by (simp_all add: agedViewer_def PDFViewer_constructor_def Map_size_def Map_has_def
        Map_keys_def)
  from caches_evict_one_entry [where v = agedViewer and cacheKey = "(''sol/a.pdf'', 3, Num 1)"
      and t = 900001 and i = 3, THEN conjunct2, THEN conjunct2, THEN conjunct2,
      THEN conjunct2, THEN conjunct1]
    w1 w2
  have "cacheRenderedPage 900001 (''sol/a.pdf'', 3, Num 1) 3 agedViewer =
      agedViewer\<lparr>renderedPageCache := renderedPageCache agedViewer @
         [((''sol/a.pdf'', 3, Num 1), \<lparr>imageData = 3, timestamp = 900001\<rparr>)]\<rparr>"
    by blast
  with w3 have r8: "Map_keys (renderedPageCache
        (cacheRenderedPage 900001 (''sol/a.pdf'', 3, Num 1) 3 agedViewer))
       = [(''sol/a.pdf'', 1, Num 1), (''sol/a.pdf'', 2, Num 1), (''sol/a.pdf'', 3, Num 1)]"
    by (simp add: Map_keys_def)
  from caches_evict_one_entry [where v = agedViewer and pdfPath = "''sol/c.pdf''"
      and t = 30 and d = "docAt ''sol/c.pdf''", THEN conjunct2, THEN conjunct2,
      THEN conjunct2, THEN conjunct2, THEN conjunct2] w4 w5
  have "cachePDF 30 ''sol/c.pdf'' (docAt ''sol/c.pdf'') agedViewer =
      agedViewer\<lparr>pdfCache := pdfCache agedViewer @
         [(''sol/c.pdf'', \<lparr>document = docAt ''sol/c.pdf'', loadTime = 30, lastAccess = 30,
             accessCount = 1, cachedTotalPages = numPages (docAt ''sol/c.pdf'')\<rparr>)]\<rparr>"
    by blast
  with w6 w7 have r9: "Map_keys (pdfCache (cachePDF 30 ''sol/c.pdf'' (docAt ''sol/c.pdf'')
        agedViewer)) = [''sol/a.pdf'', ''sol/b.pdf'', ''sol/c.pdf'']"
    and r10: "events (cachePDF 30 ''sol/c.pdf'' (docAt ''sol/c.pdf'') agedViewer) = []"
    by (simp_all add: Map_keys_def)
  from c2 c4 r1 r2 p2 r3 d6 r4 r5 u1 r6 r7 w1 r8 w4 r9 r10 show ?thesis by simp
qed



section \<open>Properties of the retry wrapper\<close>

declare retryLoop.simps [simp del]

lemma retryLoop_run:
  assumes "a \<le> k" and "k \<le> maxRetries"
    and "\<forall>j. a \<le> j \<and> j < k \<longrightarrow> isl (attemptOutcome env j)"
  shows "retryLoop env maxRetries bd name a le tr =
     (case attemptOutcome env k of
        Inr r \<Rightarrow> (Inr r, tr @ concat (map (\<lambda>j. attemptEvents env j @ [Delay j (backoff env bd j)]) [a..<k])
     @ attemptEvents env k)
      | Inl e \<Rightarrow>
          if k = maxRetries
          then (Inl (Exhausted name maxRetries e), tr @ concat (map (\<lambda>j. attemptEvents env j @ [Delay j (backoff env bd j)]) [a..<k])
     @ attemptEvents env k)
          else retryLoop env maxRetries bd name (Suc k) (Some e)
                 (tr @ concat (map (\<lambda>j. attemptEvents env j @ [Delay j (backoff env bd j)]) [a..<k])
     @ attemptEvents env k @ [Delay k (backoff env bd k)]))"
  using assms
proof (induction "k - a" arbitrary: a le tr)
  case 0
  then have "a = k" by simp
  with 0 show ?case
    by (subst retryLoop.simps) (simp add: allFailed_def split: sum.splits)
next
  case (Suc n)
  then have lt: "a < k" and le': "Suc a \<le> k" and n: "n = k - Suc a" by simp_all
  from Suc.prems lt obtain e where e: "attemptOutcome env a = Inl e"
    by (metis isl_def le_refl)
  have rest: "\<forall>j. Suc a \<le> j \<and> j < k \<longrightarrow> isl (attemptOutcome env j)"
    using Suc.prems by simp
  have up: "[a..<k] = a # [Suc a..<k]" using lt by (simp add: upt_conv_Cons)
  have "retryLoop env maxRetries bd name a le tr =
        retryLoop env maxRetries bd name (Suc a) (Some e)
          (tr @ attemptEvents env a @ [Delay a (backoff env bd a)])"
    using lt Suc.prems(2) by (subst retryLoop.simps) (simp add: e)
  also note Suc.hyps(1) [OF n le' Suc.prems(2) rest]
  finally have run: "retryLoop env maxRetries bd name a le tr =
     (case attemptOutcome env k of
        Inl e \<Rightarrow>
          if k = maxRetries
          then (Inl (Exhausted name maxRetries e),
                (tr @ attemptEvents env a @ [Delay a (backoff env bd a)]) @
                concat (map (\<lambda>j. attemptEvents env j @ [Delay j (backoff env bd j)]) [Suc a..<k]) @
                attemptEvents env k)
          else retryLoop env maxRetries bd name (Suc k) (Some e)
                ((tr @ attemptEvents env a @ [Delay a (backoff env bd a)]) @
                 concat (map (\<lambda>j. attemptEvents env j @ [Delay j (backoff env bd j)]) [Suc a..<k]) @
                 attemptEvents env k @ [Delay k (backoff env bd k)])
      | Inr r \<Rightarrow>
          (Inr r,
           (tr @ attemptEvents env a @ [Delay a (backoff env bd a)]) @
           concat (map (\<lambda>j. attemptEvents env j @ [Delay j (backoff env bd j)]) [Suc a..<k]) @
           attemptEvents env k))" .
  show ?case unfolding run up by (cases "attemptOutcome env k") simp_all

qed

lemma retryLoop_unfold:
  "retryLoop env maxRetries baseDelay operationName attempt lastError trace =
     (if attempt \<le> maxRetries then
        (case attemptOutcome env attempt of
           Inr result \<Rightarrow> (Inr result, trace @ attemptEvents env attempt)
         | Inl error \<Rightarrow>
             if attempt = maxRetries
             then (Inl (allFailed operationName maxRetries (Some error)),
                   trace @ attemptEvents env attempt)
             else retryLoop env maxRetries baseDelay operationName (attempt + 1) (Some error)
                    (trace @ attemptEvents env attempt
                       @ [Delay attempt (backoff env baseDelay attempt)]))
      else (Inl (allFailed operationName maxRetries lastError), trace))"
  by (rule retryLoop.simps)

text \<open>
  Claim C4, as stated, fails in its last part: the connectivity error is thrown inside the
  \<open>try\<close> block, so the \<open>catch\<close> of the same attempt takes it like any other failure,
  and the loop waits and goes on. With the network down at the second of three attempts, the
  wrapper does not fail at that point: it waits, checks again in the third attempt and
  returns the value of the operation.
\<close>

theorem retryWithBackoff_retries_when_offline:
  "retryWithBackoff flakyOffline 3 1000 ''Operation'' =
     (Inr 42, [OperationCall 1, Delay 1 1000, ConnectivityCheck 2 False, Delay 2 2000,
               ConnectivityCheck 3 True, OperationCall 3])"
  unfolding retryWithBackoff_def
  apply (subst retryLoop_unfold)
  apply (simp add: attemptOutcome_def attemptEvents_def backoff_def flakyOffline_def)
  apply (subst retryLoop_unfold)
  apply (simp add: attemptOutcome_def attemptEvents_def backoff_def flakyOffline_def)
  apply (subst retryLoop_unfold)
  apply (simp add: attemptOutcome_def attemptEvents_def backoff_def flakyOffline_def)
  done

lemma attemptOutcome_fails:
  "isl (attemptOutcome env j) \<longleftrightarrow>
     (1 < j \<and> \<not> checkNetworkConnectivity env j) \<or> isl (operation env j)"
  by (auto simp add: attemptOutcome_def split: sum.splits)

lemma attemptOutcome_cases:
  "attemptOutcome env j =
     (if 1 < j \<and> \<not> checkNetworkConnectivity env j then Inl Offline
      else case operation env j of Inl m \<Rightarrow> Inl (OperationFailed m) | Inr r \<Rightarrow> Inr r)"
  by (simp add: attemptOutcome_def)

lemma attemptEvents_explicit:
  "1 \<le> a \<Longrightarrow> attemptEvents env a =
     (if 1 < a then [ConnectivityCheck a (checkNetworkConnectivity env a)] else [])
     @ (if a = 1 \<or> checkNetworkConnectivity env a then [OperationCall a] else [])"
  by (auto simp add: attemptEvents_def)

lemma retryLoop_extends:
  "\<exists>rest. snd (retryLoop env maxRetries bd name a le tr) = tr @ rest"
proof (induction env maxRetries bd name a le tr rule: retryLoop.induct)
  case (1 env maxRetries baseDelay operationName attempt lastError trace)
  show ?case
  proof (cases "attempt \<le> maxRetries")
    case False
    then show ?thesis by (subst retryLoop.simps) simp
  next
    case le: True
    show ?thesis
    proof (cases "attemptOutcome env attempt")
      case (Inr r)
      with le show ?thesis by (subst retryLoop.simps) simp
    next
      case (Inl e)
      show ?thesis
      proof (cases "attempt = maxRetries")
        case True
        with le Inl show ?thesis by (subst retryLoop.simps) simp
      next
        case False
        from 1 [OF le Inl False] obtain rest where
          "snd (retryLoop env maxRetries baseDelay operationName (attempt + 1) (Some e)
                 (trace @ attemptEvents env attempt
                    @ [Delay attempt (backoff env baseDelay attempt)]))
           = (trace @ attemptEvents env attempt
                    @ [Delay attempt (backoff env baseDelay attempt)]) @ rest"
          by blast
        with le Inl False show ?thesis by (subst retryLoop.simps) simp
      qed
    qed
  qed
qed

lemma retryLoop_next:
  assumes "a \<le> maxRetries"
  shows "\<exists>rest. snd (retryLoop env maxRetries bd name a le tr) = tr @ attemptEvents env a @ rest"
proof (cases "attemptOutcome env a")
  case (Inr r)
  with assms show ?thesis by (subst retryLoop.simps) simp
next
  case (Inl e)
  show ?thesis
  proof (cases "a = maxRetries")
    case True
    with Inl show ?thesis by (subst retryLoop.simps) simp
  next
    case False
    from retryLoop_extends [of env maxRetries bd name "a + 1" "Some e"
        "tr @ attemptEvents env a @ [Delay a (backoff env bd a)]"]
    obtain rest where
      "snd (retryLoop env maxRetries bd name (a + 1) (Some e)
             (tr @ attemptEvents env a @ [Delay a (backoff env bd a)]))
       = (tr @ attemptEvents env a @ [Delay a (backoff env bd a)]) @ rest"
      by blast
    with assms Inl False show ?thesis by (subst retryLoop.simps) simp
  qed
qed

lemma attempts_explicit:
  assumes "1 \<le> k"
  shows "concat (map (\<lambda>a. attemptEvents env a @ [Delay a (backoff env baseDelay a)]) [1..<k])
       @ attemptEvents env k =
     concat (map (\<lambda>a.
         (if 1 < a then [ConnectivityCheck a (checkNetworkConnectivity env a)] else [])
         @ (if a = 1 \<or> checkNetworkConnectivity env a then [OperationCall a] else [])
         @ (if a < k then [Delay a (baseDelay * 2 ^ (a - 1) + random env a * 1000)] else []))
       [1..<Suc k])"
proof -
  have up: "[1..<Suc k] = [1..<k] @ [k]" using assms by simp
  have body: "map (\<lambda>a.
         (if 1 < a then [ConnectivityCheck a (checkNetworkConnectivity env a)] else [])
         @ (if a = 1 \<or> checkNetworkConnectivity env a then [OperationCall a] else [])
         @ (if a < k then [Delay a (baseDelay * 2 ^ (a - 1) + random env a * 1000)] else []))
       [1..<k]
     = map (\<lambda>a. attemptEvents env a @ [Delay a (backoff env baseDelay a)]) [1..<k]"
    by (rule map_cong) (auto simp add: attemptEvents_def backoff_def)
  show ?thesis
    unfolding up map_append concat_append body
    using assms by (simp add: attemptEvents_explicit)
qed

lemma failsTwice_simps:
  "operation failsTwice k = (if k < 3 then Inl ''HTTP 503'' else Inr 42)"
  "checkNetworkConnectivity failsTwice k = True"
  "random failsTwice k = 0"
  by (simp_all add: failsTwice_def)

lemma alwaysFails_simps:
  "operation alwaysFails k = Inl ''HTTP 503''"
  "checkNetworkConnectivity alwaysFails k = True"
  "random alwaysFails k = 0"
  by (simp_all add: alwaysFails_def)

lemma flakyOffline_simps:
  "operation flakyOffline k = (if k = 1 then Inl ''HTTP 503'' else Inr 42)"
  "checkNetworkConnectivity flakyOffline k = (k \<noteq> 2)"
  "random flakyOffline k = 0"
  by (simp_all add: flakyOffline_def)

lemma staysOffline_simps:
  "operation staysOffline k = (if k = 1 then Inl ''HTTP 503'' else Inr 42)"
  "checkNetworkConnectivity staysOffline k = False"
  "random staysOffline k = 0"
  by (simp_all add: staysOffline_def)

text \<open>
  Claim C4, amended. An attempt fails when its connectivity check answers offline (the
  check is made in every attempt after the first and in no other; the operation is then not
  called and the error of the attempt is the connectivity error), or when the operation
  fails. For every operation, every connectivity and every \<open>maxRetries\<close> at least 1, let
  the attempts before attempt \<open>k\<close> fail. If the operation succeeds in attempt \<open>k\<close>
  (the network being up there, or \<open>k\<close> being the first attempt), the wrapper returns the
  value of the operation. If attempt \<open>k\<close> is the last one and fails, the wrapper raises
  the error that carries the operation name, the number of attempts and the error of that
  attempt: the message of the operation's error, or the connectivity error. What the wrapper
  does up to the end of attempt \<open>k\<close> is, for each attempt in order: the connectivity check
  (not in the first attempt), the call of the operation (in the first attempt, and in a later
  one whose check answered online), and the delay \<open>baseDelay * 2^(attempt - 1)\<close> plus the
  jitter after every attempt but attempt \<open>k\<close>. Nothing follows when attempt \<open>k\<close>
  returned or was the last one. When attempt \<open>k\<close> failed and was not the last one, also
  when it failed for being offline, the wrapper goes on with the delay of attempt \<open>k\<close> and
  the connectivity check of the next attempt.
\<close>

theorem retryWithBackoff_attempts:
  assumes "1 \<le> k" and "k \<le> maxRetries"
    and "\<forall>j. 1 \<le> j \<and> j < k \<longrightarrow>
           (1 < j \<and> \<not> checkNetworkConnectivity env j) \<or> isl (operation env j)"
  shows "(\<forall>r. (k = 1 \<or> checkNetworkConnectivity env k) \<and> operation env k = Inr r \<longrightarrow>
            fst (retryWithBackoff env maxRetries baseDelay operationName) = Inr r)
    \<and> (\<forall>m. k = maxRetries \<and> (k = 1 \<or> checkNetworkConnectivity env k)
              \<and> operation env k = Inl m \<longrightarrow>
            fst (retryWithBackoff env maxRetries baseDelay operationName)
              = Inl (Exhausted operationName maxRetries (OperationFailed m)))
    \<and> (k = maxRetries \<and> 1 < k \<and> \<not> checkNetworkConnectivity env k \<longrightarrow>
            fst (retryWithBackoff env maxRetries baseDelay operationName)
              = Inl (Exhausted operationName maxRetries Offline))
    \<and> (\<exists>rest. snd (retryWithBackoff env maxRetries baseDelay operationName) =
          concat (map (\<lambda>a.
              (if 1 < a then [ConnectivityCheck a (checkNetworkConnectivity env a)] else [])
              @ (if a = 1 \<or> checkNetworkConnectivity env a then [OperationCall a] else [])
              @ (if a < k then [Delay a (baseDelay * 2 ^ (a - 1) + random env a * 1000)] else []))
            [1..<Suc k]) @ rest
        \<and> (k = maxRetries \<or> ((k = 1 \<or> checkNetworkConnectivity env k)
               \<and> \<not> isl (operation env k)) \<longrightarrow> rest = [])
        \<and> (k < maxRetries \<and> ((1 < k \<and> \<not> checkNetworkConnectivity env k)
               \<or> isl (operation env k)) \<longrightarrow>
             (\<exists>more. rest = Delay k (baseDelay * 2 ^ (k - 1) + random env k * 1000)
                # ConnectivityCheck (Suc k) (checkNetworkConnectivity env (Suc k)) # more)))"
proof -
  let ?R = "retryWithBackoff env maxRetries baseDelay operationName"
  let ?T = "concat (map (\<lambda>a.
              (if 1 < a then [ConnectivityCheck a (checkNetworkConnectivity env a)] else [])
              @ (if a = 1 \<or> checkNetworkConnectivity env a then [OperationCall a] else [])
              @ (if a < k then [Delay a (baseDelay * 2 ^ (a - 1) + random env a * 1000)] else []))
            [1..<Suc k])"
  have T: "concat (map (\<lambda>a. attemptEvents env a @ [Delay a (backoff env baseDelay a)]) [1..<k])
       @ attemptEvents env k = ?T"
    by (rule attempts_explicit [OF assms(1)])
  from assms(3) have fails: "\<forall>j. 1 \<le> j \<and> j < k \<longrightarrow> isl (attemptOutcome env j)"
    by (simp add: attemptOutcome_fails)
  have run: "?R =
     (case attemptOutcome env k of
        Inr r \<Rightarrow> (Inr r, ?T)
      | Inl e \<Rightarrow>
          if k = maxRetries
          then (Inl (Exhausted operationName maxRetries e), ?T)
          else retryLoop env maxRetries baseDelay operationName (Suc k) (Some e)
                 (?T @ [Delay k (backoff env baseDelay k)]))"
    unfolding retryWithBackoff_def T [symmetric]
    using retryLoop_run [OF assms(1,2) fails, where bd = baseDelay and name = operationName
        and le = None and tr = "[]"]
    by (simp split: sum.splits)
  have ok: "\<forall>r. (k = 1 \<or> checkNetworkConnectivity env k) \<and> operation env k = Inr r \<longrightarrow>
            fst ?R = Inr r"
    by (auto simp add: run attemptOutcome_cases)
  have failed: "\<forall>m. k = maxRetries \<and> (k = 1 \<or> checkNetworkConnectivity env k)
              \<and> operation env k = Inl m \<longrightarrow>
            fst ?R = Inl (Exhausted operationName maxRetries (OperationFailed m))"
    by (auto simp add: run attemptOutcome_cases)
  have offline: "k = maxRetries \<and> 1 < k \<and> \<not> checkNetworkConnectivity env k \<longrightarrow>
            fst ?R = Inl (Exhausted operationName maxRetries Offline)"
    by (auto simp add: run attemptOutcome_cases)
  have trace: "\<exists>rest. snd ?R = ?T @ rest
        \<and> (k = maxRetries \<or> ((k = 1 \<or> checkNetworkConnectivity env k)
               \<and> \<not> isl (operation env k)) \<longrightarrow> rest = [])
        \<and> (k < maxRetries \<and> ((1 < k \<and> \<not> checkNetworkConnectivity env k)
               \<or> isl (operation env k)) \<longrightarrow>
             (\<exists>more. rest = Delay k (baseDelay * 2 ^ (k - 1) + random env k * 1000)
                # ConnectivityCheck (Suc k) (checkNetworkConnectivity env (Suc k)) # more))"
  proof (cases "attemptOutcome env k")
    case (Inr r)
    then have "\<not> isl (attemptOutcome env k)" by simp
    then have nf: "\<not> ((1 < k \<and> \<not> checkNetworkConnectivity env k) \<or> isl (operation env k))"
      by (simp add: attemptOutcome_fails)
    from Inr have "snd ?R = ?T @ []" by (simp add: run)
    with nf show ?thesis by blast
  next
    case (Inl e)
    then have "isl (attemptOutcome env k)" by simp
    then have f: "(1 < k \<and> \<not> checkNetworkConnectivity env k) \<or> isl (operation env k)"
      by (simp add: attemptOutcome_fails)
    show ?thesis
    proof (cases "k = maxRetries")
      case True
      with Inl have "snd ?R = ?T @ []" by (simp add: run)
      with True show ?thesis by blast
    next
      case False
      with assms(2) have lt: "k < maxRetries" and le: "Suc k \<le> maxRetries" by simp_all
      from retryLoop_next [OF le, of env baseDelay operationName "Some e"
          "?T @ [Delay k (backoff env baseDelay k)]"]
      obtain more where "snd (retryLoop env maxRetries baseDelay operationName (Suc k) (Some e)
             (?T @ [Delay k (backoff env baseDelay k)]))
         = (?T @ [Delay k (backoff env baseDelay k)]) @ attemptEvents env (Suc k) @ more"
        by blast
      with Inl False have "snd ?R = ?T @ (Delay k (baseDelay * 2 ^ (k - 1) + random env k * 1000)
            # ConnectivityCheck (Suc k) (checkNetworkConnectivity env (Suc k))
            # (if checkNetworkConnectivity env (Suc k) then [OperationCall (Suc k)] else []) @ more)"
        using assms(1) by (simp add: run backoff_def attemptEvents_def)
      moreover from f False have
        "\<not> (k = maxRetries \<or> ((k = 1 \<or> checkNetworkConnectivity env k)
               \<and> \<not> isl (operation env k)))"
        using assms(1) by auto
      ultimately show ?thesis by blast
    qed
  qed
  from ok failed offline trace show ?thesis by blast
qed


text \<open>
  The theorem at an operation that succeeds in the third of three attempts, at one that fails
  three times, at one whose network stays down after the first failure, at one that succeeds
  at once with the network down, and at the one of the counterexample, whose second attempt is
  offline and whose third attempt succeeds.
\<close>

theorem retryWithBackoff_attempts_witness:
  "retryWithBackoff failsTwice 3 1000 ''Operation'' =
     (Inr 42, [OperationCall 1, Delay 1 1000, ConnectivityCheck 2 True, OperationCall 2,
               Delay 2 2000, ConnectivityCheck 3 True, OperationCall 3])
   \<and> retryWithBackoff alwaysFails 3 1000 ''Operation'' =
     (Inl (Exhausted ''Operation'' 3 (OperationFailed ''HTTP 503'')),
      [OperationCall 1, Delay 1 1000, ConnectivityCheck 2 True, OperationCall 2,
       Delay 2 2000, ConnectivityCheck 3 True, OperationCall 3])
   \<and> retryWithBackoff staysOffline 3 1000 ''Operation'' =
     (Inl (Exhausted ''Operation'' 3 Offline),
      [OperationCall 1, Delay 1 1000, ConnectivityCheck 2 False,
       Delay 2 2000, ConnectivityCheck 3 False])
   \<and> retryWithBackoff (staysOffline\<lparr>operation := \<lambda>k. Inr 7\<rparr>) 3 1000 ''Operation'' =
     (Inr 7, [OperationCall 1])
   \<and> (\<exists>more. snd (retryWithBackoff flakyOffline 3 1000 ''Operation'') =
        [OperationCall 1, Delay 1 1000, ConnectivityCheck 2 False, Delay 2 2000,
         ConnectivityCheck 3 True] @ more)
   \<and> fst (retryWithBackoff flakyOffline 3 1000 ''Operation'') = Inr 42"
proof -
  have h1: "(1::nat) \<le> 3" and h2: "(3::nat) \<le> 3" and h3: "(1::nat) \<le> 1" and h4: "(1::nat) \<le> 3"
    and h5: "(1::nat) \<le> 2" and h6: "(2::nat) \<le> 3"
    by simp_all
  have up3: "[Suc 0..<4] = [Suc 0, 2, 3]" and up2: "[Suc 0..<3] = [Suc 0, 2]"
    by (simp_all add: upt_rec)
  have f: "\<forall>j. 1 \<le> j \<and> j < 3 \<longrightarrow>
      (1 < j \<and> \<not> checkNetworkConnectivity failsTwice j) \<or> isl (operation failsTwice j)"
    by (simp add: failsTwice_def)
  have g: "\<forall>j. 1 \<le> j \<and> j < 3 \<longrightarrow>
      (1 < j \<and> \<not> checkNetworkConnectivity alwaysFails j) \<or> isl (operation alwaysFails j)"
    by (simp add: alwaysFails_def)
  have s: "\<forall>j. 1 \<le> j \<and> j < 3 \<longrightarrow>
      (1 < j \<and> \<not> checkNetworkConnectivity staysOffline j) \<or> isl (operation staysOffline j)"
    by (auto simp add: staysOffline_def)
  have o: "\<forall>j. 1 \<le> j \<and> j < 1 \<longrightarrow>
      (1 < j \<and> \<not> checkNetworkConnectivity (staysOffline\<lparr>operation := \<lambda>k. Inr 7\<rparr>) j)
       \<or> isl (operation (staysOffline\<lparr>operation := \<lambda>k. Inr 7\<rparr>) j)"
    by simp
  have x2: "\<forall>j. 1 \<le> j \<and> j < 2 \<longrightarrow>
      (1 < j \<and> \<not> checkNetworkConnectivity flakyOffline j) \<or> isl (operation flakyOffline j)"
    by (auto simp add: flakyOffline_def)
  have x3: "\<forall>j. 1 \<le> j \<and> j < 3 \<longrightarrow>
      (1 < j \<and> \<not> checkNetworkConnectivity flakyOffline j) \<or> isl (operation flakyOffline j)"
    by (auto simp add: flakyOffline_def)
  from retryWithBackoff_attempts [OF h1 h2 f, of 1000 "''Operation''"]
  have a: "retryWithBackoff failsTwice 3 1000 ''Operation'' =
     (Inr 42, [OperationCall 1, Delay 1 1000, ConnectivityCheck 2 True, OperationCall 2,
               Delay 2 2000, ConnectivityCheck 3 True, OperationCall 3])"
    by (auto simp add: failsTwice_simps up3 prod_eq_iff)
  from retryWithBackoff_attempts [OF h1 h2 g, of 1000 "''Operation''"]
  have b: "retryWithBackoff alwaysFails 3 1000 ''Operation'' =
     (Inl (Exhausted ''Operation'' 3 (OperationFailed ''HTTP 503'')),
      [OperationCall 1, Delay 1 1000, ConnectivityCheck 2 True, OperationCall 2,
       Delay 2 2000, ConnectivityCheck 3 True, OperationCall 3])"
    by (auto simp add: alwaysFails_simps up3 prod_eq_iff)
  from retryWithBackoff_attempts [OF h1 h2 s, of 1000 "''Operation''"]
  have c: "retryWithBackoff staysOffline 3 1000 ''Operation'' =
     (Inl (Exhausted ''Operation'' 3 Offline),
      [OperationCall 1, Delay 1 1000, ConnectivityCheck 2 False,
       Delay 2 2000, ConnectivityCheck 3 False])"
    by (auto simp add: staysOffline_simps up3 prod_eq_iff)
  from retryWithBackoff_attempts [OF h3 h4 o, of 1000 "''Operation''"]
  have d: "retryWithBackoff (staysOffline\<lparr>operation := \<lambda>k. Inr 7\<rparr>) 3 1000 ''Operation'' =
     (Inr 7, [OperationCall 1])"
    by (auto simp add: staysOffline_simps prod_eq_iff)
  from retryWithBackoff_attempts [OF h5 h6 x2, of 1000 "''Operation''"]
  have e: "\<exists>more. snd (retryWithBackoff flakyOffline 3 1000 ''Operation'') =
        [OperationCall 1, Delay 1 1000, ConnectivityCheck 2 False, Delay 2 2000,
         ConnectivityCheck 3 True] @ more"
    by (auto simp add: flakyOffline_simps up2)
  from retryWithBackoff_attempts [OF h1 h2 x3, of 1000 "''Operation''"]
  have f: "fst (retryWithBackoff flakyOffline 3 1000 ''Operation'') = Inr 42"
    by (auto simp add: flakyOffline_simps)
  from a b c d e f show ?thesis by blast
qed


section \<open>Properties of the catalogue\<close>

lemma foldl_Set_add:
  "distinct acc \<Longrightarrow>
   distinct (foldl (\<lambda>s x. if x \<in> set s then s else s @ [x]) acc xs)
   \<and> set (foldl (\<lambda>s x. if x \<in> set s then s else s @ [x]) acc xs) = set acc \<union> set xs"
  by (induction xs arbitrary: acc) auto

lemma Set_values_distinct [simp]: "distinct (Set_values xs)"
  and Set_values_set [simp]: "set (Set_values xs) = set xs"
  using foldl_Set_add [of "[]" xs] by (simp_all add: Set_values_def)

lemma insertSorted_set [simp]: "set (insertSorted cmp x ys) = insert x (set ys)"
  by (induction ys) auto

lemma insertSorted_distinct [simp]:
  "distinct (insertSorted cmp x ys) \<longleftrightarrow> x \<notin> set ys \<and> distinct ys"
  by (induction ys) auto

lemma Array_sort_set [simp]: "set (Array_sort cmp xs) = set xs"
  by (induction xs) (simp_all add: Array_sort_def)

lemma Array_sort_Cons: "Array_sort cmp (x # xs) = insertSorted cmp x (Array_sort cmp xs)"
  by (simp add: Array_sort_def)

lemma Array_sort_distinct [simp]: "distinct (Array_sort cmp xs) \<longleftrightarrow> distinct xs"
  by (induction xs) (simp_all add: Array_sort_Cons, simp add: Array_sort_def)

lemma insertSorted_sorted:
  fixes key :: "'a \<Rightarrow> int"
  assumes "sorted_wrt (\<lambda>a b. key a \<le> key b) ys"
    and "\<forall>y\<in>set ys. (cmp x y \<le> 0) = (key x \<le> key y)"
  shows "sorted_wrt (\<lambda>a b. key a \<le> key b) (insertSorted cmp x ys)"
  using assms by (induction ys) auto

lemma Array_sort_sorted:
  fixes key :: "'a \<Rightarrow> int"
  assumes "\<forall>x\<in>set xs. \<forall>y\<in>set xs. (cmp x y \<le> 0) = (key x \<le> key y)"
  shows "sorted_wrt (\<lambda>a b. key a \<le> key b) (Array_sort cmp xs)"
  using assms
proof (induction xs)
  case Nil
  then show ?case by (simp add: Array_sort_def)
next
  case (Cons x xs)
  then have "sorted_wrt (\<lambda>a b. key a \<le> key b) (Array_sort cmp xs)" by simp
  moreover from Cons.prems
  have "\<forall>y\<in>set (Array_sort cmp xs). (cmp x y \<le> 0) = (key x \<le> key y)" by simp
  ultimately have "sorted_wrt (\<lambda>a b. key a \<le> key b) (insertSorted cmp x (Array_sort cmp xs))"
    by (rule insertSorted_sorted)
  then show ?case by (simp add: Array_sort_def)
qed

lemma sorted_wrt_distinct_strict:
  "distinct xs \<Longrightarrow> sorted_wrt P xs \<Longrightarrow> sorted_wrt (\<lambda>a b. P a b \<and> a \<noteq> b) xs"
  by (induction xs) auto

lemma parseInt_empty [simp]: "parseInt [] = None"
  by (simp add: parseInt_def trimStart_def)

lemma validRow_parsed:
  assumes "validRow row"
  shows "(\<exists>n. parseInt (year (rowItem row)) = Some n \<and> 2000 \<le> n \<and> n \<le> 2100)
    \<and> (\<exists>n. parseInt (month (rowItem row)) = Some n \<and> 1 \<le> n \<and> n \<le> 12)
    \<and> (\<exists>n. parseInt (questionNumber (rowItem row)) = Some n \<and> 1 \<le> n \<and> n \<le> 999)"
  using assms
  by (cases row rule: validRow.cases)
     (auto simp add: rowItem_def split: if_splits option.splits)

lemma ascending_query:
  assumes "\<forall>x\<in>set xs. parseInt x \<noteq> None"
  shows "distinct (Array_sort (\<lambda>a b. numDiff (parseInt a) (parseInt b)) (Set_values xs))
    \<and> set (Array_sort (\<lambda>a b. numDiff (parseInt a) (parseInt b)) (Set_values xs)) = set xs
    \<and> sorted_wrt (\<lambda>a b. the (parseInt a) \<le> the (parseInt b))
         (Array_sort (\<lambda>a b. numDiff (parseInt a) (parseInt b)) (Set_values xs))"
proof -
  have "\<forall>x\<in>set (Set_values xs). \<forall>y\<in>set (Set_values xs).
      (numDiff (parseInt x) (parseInt y) \<le> 0) = (the (parseInt x) \<le> the (parseInt y))"
  proof (intro ballI)
    fix x y assume "x \<in> set (Set_values xs)" "y \<in> set (Set_values xs)"
    with assms obtain m n where "parseInt x = Some m" "parseInt y = Some n" by fastforce
    then show "(numDiff (parseInt x) (parseInt y) \<le> 0) = (the (parseInt x) \<le> the (parseInt y))"
      by (simp add: numDiff_def)
  qed
  from Array_sort_sorted [OF this] show ?thesis by simp
qed

lemma descending_query:
  assumes "\<forall>x\<in>set xs. parseInt x \<noteq> None"
  shows "distinct (Array_sort (\<lambda>a b. numDiff (parseInt b) (parseInt a)) (Set_values xs))
    \<and> set (Array_sort (\<lambda>a b. numDiff (parseInt b) (parseInt a)) (Set_values xs)) = set xs
    \<and> sorted_wrt (\<lambda>a b. the (parseInt a) \<ge> the (parseInt b))
         (Array_sort (\<lambda>a b. numDiff (parseInt b) (parseInt a)) (Set_values xs))"
proof -
  have "\<forall>x\<in>set (Set_values xs). \<forall>y\<in>set (Set_values xs).
      (numDiff (parseInt y) (parseInt x) \<le> 0) = (- the (parseInt x) \<le> - the (parseInt y))"
  proof (intro ballI)
    fix x y assume "x \<in> set (Set_values xs)" "y \<in> set (Set_values xs)"
    with assms obtain m n where "parseInt x = Some m" "parseInt y = Some n" by fastforce
    then show "(numDiff (parseInt y) (parseInt x) \<le> 0)
        = (- the (parseInt x) \<le> - the (parseInt y))"
      by (simp add: numDiff_def)
  qed
  from Array_sort_sorted [OF this] show ?thesis by simp
qed

lemma strict_when_injective:
  assumes "distinct xs" and "\<forall>x\<in>set xs. parseInt x \<noteq> None"
    and "inj_on parseInt (set xs)"
  shows "sorted_wrt (\<lambda>a b. the (parseInt a) \<le> the (parseInt b)) xs \<Longrightarrow>
         sorted_wrt (\<lambda>a b. the (parseInt a) < the (parseInt b)) xs"
    and "sorted_wrt (\<lambda>a b. the (parseInt a) \<ge> the (parseInt b)) xs \<Longrightarrow>
         sorted_wrt (\<lambda>a b. the (parseInt a) > the (parseInt b)) xs"
proof -
  have ne: "a \<in> set xs \<Longrightarrow> b \<in> set xs \<Longrightarrow> a \<noteq> b \<Longrightarrow> the (parseInt a) \<noteq> the (parseInt b)"
    for a b
    using assms(2,3) by (metis inj_onD option.expand)
  { assume "sorted_wrt (\<lambda>a b. the (parseInt a) \<le> the (parseInt b)) xs"
    from sorted_wrt_distinct_strict [OF assms(1) this]
    show "sorted_wrt (\<lambda>a b. the (parseInt a) < the (parseInt b)) xs"
      by (rule sorted_wrt_mono_rel [rotated]) (use ne in force) }
  { assume "sorted_wrt (\<lambda>a b. the (parseInt a) \<ge> the (parseInt b)) xs"
    from sorted_wrt_distinct_strict [OF assms(1) this]
    show "sorted_wrt (\<lambda>a b. the (parseInt a) > the (parseInt b)) xs"
      by (rule sorted_wrt_mono_rel [rotated]) (use ne in force) }
qed

lemma storeRows_Inr:
  assumes "storeRows rows dm0 = (Inr items, dm)"
  shows "csvData dm = map rowItem (filter validRow rows)" and "isDataLoaded dm"
    and "csvData dm \<noteq> []"
  using assms by (auto simp add: storeRows_def Let_def split: if_splits)

lemma stored_items_parse:
  assumes "storeRows rows dm0 = (Inr items, dm)" and "i \<in> set (csvData dm)"
  shows "parseInt (year i) \<noteq> None" "parseInt (month i) \<noteq> None"
    "parseInt (questionNumber i) \<noteq> None"
proof -
  from assms storeRows_Inr(1) [OF assms(1)] obtain row where "validRow row" "i = rowItem row"
    by auto
  with validRow_parsed [of row]
  show "parseInt (year i) \<noteq> None" "parseInt (month i) \<noteq> None"
    "parseInt (questionNumber i) \<noteq> None"
    by auto
qed

lemmas parse_defs = parseInt_def trimStart_def trim_def isWhiteSpace_def digitValue_def Let_def

text \<open>
  Claim C6, as stated, fails: the values are made distinct as strings and then ordered by
  their numbers, and two distinct strings can have the same number. A file with the months
  \<open>6\<close> and \<open>06\<close> for the year 2022 is accepted row by row, and the months returned
  are \<open>6\<close> and \<open>06\<close>, both of value 6: the order is not strict.
\<close>

theorem months_not_strictly_ascending:
  "fst (storeRows [[''2022'', ''6'', ''1''], [''2022'', ''06'', ''2'']] DataManager_constructor)
     = Inr [\<lparr>year = ''2022'', month = ''6'', questionNumber = ''1''\<rparr>,
            \<lparr>year = ''2022'', month = ''06'', questionNumber = ''2''\<rparr>]
   \<and> getMonthsForYear
        (snd (storeRows [[''2022'', ''6'', ''1''], [''2022'', ''06'', ''2'']]
           DataManager_constructor)) ''2022'' = [''6'', ''06'']
   \<and> parseInt ''6'' = Some 6 \<and> parseInt ''06'' = Some 6"
  by (simp add: storeRows_def rowItem_def DataManager_constructor_def getMonthsForYear_def
      Set_values_def Array_sort_def numDiff_def parse_defs)

text \<open>
  Claim C6, amended. For every catalogue loaded from rows in any order,
  \<open>getAvailableYears\<close> returns the distinct year strings in descending order of their
  numeric value, \<open>getMonthsForYear\<close> and \<open>getQuestionsForYearMonth\<close> the distinct
  month and question strings of the matching rows in ascending order of their numeric value
  (every returned string parses to a number). The order is by value, not lexical, and it is
  strict whenever no two of the returned strings have the same numeric value.
\<close>

theorem catalogue_queries_sorted:
  assumes "storeRows rows dm0 = (Inr items, dm)"
  shows "distinct (getAvailableYears dm)
    \<and> set (getAvailableYears dm) = year ` set (csvData dm)
    \<and> sorted_wrt (\<lambda>a b. the (parseInt a) \<ge> the (parseInt b)) (getAvailableYears dm)
    \<and> (inj_on parseInt (set (getAvailableYears dm)) \<longrightarrow>
          sorted_wrt (\<lambda>a b. the (parseInt a) > the (parseInt b)) (getAvailableYears dm))
    \<and> distinct (getMonthsForYear dm y)
    \<and> set (getMonthsForYear dm y) = month ` {i \<in> set (csvData dm). year i = y}
    \<and> sorted_wrt (\<lambda>a b. the (parseInt a) \<le> the (parseInt b)) (getMonthsForYear dm y)
    \<and> (inj_on parseInt (set (getMonthsForYear dm y)) \<longrightarrow>
          sorted_wrt (\<lambda>a b. the (parseInt a) < the (parseInt b)) (getMonthsForYear dm y))
    \<and> distinct (getQuestionsForYearMonth dm y m)
    \<and> set (getQuestionsForYearMonth dm y m)
         = questionNumber ` {i \<in> set (csvData dm). year i = y \<and> month i = m}
    \<and> sorted_wrt (\<lambda>a b. the (parseInt a) \<le> the (parseInt b))
          (getQuestionsForYearMonth dm y m)
    \<and> (inj_on parseInt (set (getQuestionsForYearMonth dm y m)) \<longrightarrow>
          sorted_wrt (\<lambda>a b. the (parseInt a) < the (parseInt b))
            (getQuestionsForYearMonth dm y m))
    \<and> (\<forall>s \<in> set (getAvailableYears dm) \<union> set (getMonthsForYear dm y)
            \<union> set (getQuestionsForYearMonth dm y m). parseInt s \<noteq> None)"
proof -
  note loaded = storeRows_Inr [OF assms]
  note parse = stored_items_parse [OF assms]
  let ?ys = "map year (csvData dm)"
  let ?ms = "map month (filter (\<lambda>item. year item = y) (csvData dm))"
  let ?qs = "map questionNumber (filter (\<lambda>item. year item = y \<and> month item = m) (csvData dm))"
  have py: "\<forall>x\<in>set ?ys. parseInt x \<noteq> None" using parse(1) by auto
  have pm: "\<forall>x\<in>set ?ms. parseInt x \<noteq> None" using parse(2) by auto
  have pq: "\<forall>x\<in>set ?qs. parseInt x \<noteq> None" using parse(3) by auto
  have yy: "year i \<noteq> []" if "i \<in> set (csvData dm)" for i
    using parse(1) [OF that] by (metis parseInt_empty)
  have mm: "month i \<noteq> []" if "i \<in> set (csvData dm)" for i
    using parse(2) [OF that] by (metis parseInt_empty)
  have yne: "y = [] \<Longrightarrow> ?ms = []" using yy by (auto simp add: filter_empty_conv)
  have qne: "y = [] \<or> m = [] \<Longrightarrow> ?qs = []"
    using yy mm by (auto simp add: filter_empty_conv)
  have Y: "getAvailableYears dm = Array_sort (\<lambda>a b. numDiff (parseInt b) (parseInt a)) (Set_values ?ys)"
    using loaded by (simp add: getAvailableYears_def)
  have M: "getMonthsForYear dm y = Array_sort (\<lambda>a b. numDiff (parseInt a) (parseInt b)) (Set_values ?ms)"
  proof (cases "y = []")
    case True
    with yne have "?ms = []" by simp
    with True show ?thesis
      by (simp add: getMonthsForYear_def Array_sort_def Set_values_def)
  next
    case False
    with loaded show ?thesis by (simp add: getMonthsForYear_def)
  qed
  have Q: "getQuestionsForYearMonth dm y m =
      Array_sort (\<lambda>a b. numDiff (parseInt a) (parseInt b)) (Set_values ?qs)"
  proof (cases "y = [] \<or> m = []")
    case True
    with qne have "?qs = []" by simp
    with True show ?thesis
      by (auto simp add: getQuestionsForYearMonth_def Array_sort_def Set_values_def)
  next
    case False
    with loaded show ?thesis by (simp add: getQuestionsForYearMonth_def)
  qed
  note dy = descending_query [OF py, folded Y]
  note am = ascending_query [OF pm, folded M]
  note aq = ascending_query [OF pq, folded Q]
  have sy: "set (getAvailableYears dm) = year ` set (csvData dm)" using dy by simp
  have sm: "set (getMonthsForYear dm y) = month ` {i \<in> set (csvData dm). year i = y}"
    using am by auto
  have sq: "set (getQuestionsForYearMonth dm y m)
         = questionNumber ` {i \<in> set (csvData dm). year i = y \<and> month i = m}"
    using aq by auto
  have ny: "\<forall>x\<in>set (getAvailableYears dm). parseInt x \<noteq> None" using dy py by simp
  have nm: "\<forall>x\<in>set (getMonthsForYear dm y). parseInt x \<noteq> None" using am pm by simp
  have nq: "\<forall>x\<in>set (getQuestionsForYearMonth dm y m). parseInt x \<noteq> None"
    using aq pq by simp
  have stry: "inj_on parseInt (set (getAvailableYears dm)) \<longrightarrow>
          sorted_wrt (\<lambda>a b. the (parseInt a) > the (parseInt b)) (getAvailableYears dm)"
    using strict_when_injective(2) [OF _ ny] dy by blast
  have strm: "inj_on parseInt (set (getMonthsForYear dm y)) \<longrightarrow>
          sorted_wrt (\<lambda>a b. the (parseInt a) < the (parseInt b)) (getMonthsForYear dm y)"
    using strict_when_injective(1) [OF _ nm] am by blast
  have strq: "inj_on parseInt (set (getQuestionsForYearMonth dm y m)) \<longrightarrow>
          sorted_wrt (\<lambda>a b. the (parseInt a) < the (parseInt b))
            (getQuestionsForYearMonth dm y m)"
    using strict_when_injective(1) [OF _ nq] aq by blast
  have all: "\<forall>s \<in> set (getAvailableYears dm) \<union> set (getMonthsForYear dm y)
            \<union> set (getQuestionsForYearMonth dm y m). parseInt s \<noteq> None"
    using ny nm nq by blast
  from dy am aq sy sm sq stry strm strq all show ?thesis by blast
qed

theorem catalogue_queries_sorted_witness:
  "fst (storeRows shuffledRows DataManager_constructor) =
     Inr [\<lparr>year = ''2021'', month = ''11'', questionNumber = ''3''\<rparr>,
          \<lparr>year = ''2022'', month = ''11'', questionNumber = ''1''\<rparr>,
          \<lparr>year = ''2022'', month = ''6'', questionNumber = ''2''\<rparr>,
          \<lparr>year = ''2022'', month = ''6'', questionNumber = ''1''\<rparr>]
   \<and> getAvailableYears (snd (storeRows shuffledRows DataManager_constructor))
       = [''2022'', ''2021'']
   \<and> sorted_wrt (\<lambda>a b. the (parseInt a) > the (parseInt b))
        (getAvailableYears (snd (storeRows shuffledRows DataManager_constructor)))
   \<and> getMonthsForYear (snd (storeRows shuffledRows DataManager_constructor)) ''2022''
       = [''6'', ''11'']
   \<and> sorted_wrt (\<lambda>a b. the (parseInt a) < the (parseInt b))
        (getMonthsForYear (snd (storeRows shuffledRows DataManager_constructor)) ''2022'')
   \<and> getQuestionsForYearMonth (snd (storeRows shuffledRows DataManager_constructor))
        ''2022'' ''6'' = [''1'', ''2'']
   \<and> sorted_wrt (\<lambda>a b. the (parseInt a) < the (parseInt b))
        (getQuestionsForYearMonth (snd (storeRows shuffledRows DataManager_constructor))
           ''2022'' ''6'')"
proof -
  let ?dm = "snd (storeRows shuffledRows DataManager_constructor)"
  let ?items = "[\<lparr>year = ''2021'', month = ''11'', questionNumber = ''3''\<rparr>,
          \<lparr>year = ''2022'', month = ''11'', questionNumber = ''1''\<rparr>,
          \<lparr>year = ''2022'', month = ''6'', questionNumber = ''2''\<rparr>,
          \<lparr>year = ''2022'', month = ''6'', questionNumber = ''1''\<rparr>]"
  have st: "storeRows shuffledRows DataManager_constructor
      = (Inr ?items, \<lparr>csvData = ?items, isDataLoaded = True\<rparr>)"
    by (simp add: storeRows_def shuffledRows_def rowItem_def DataManager_constructor_def
        parse_defs)
  then have dm: "?dm = \<lparr>csvData = ?items, isDataLoaded = True\<rparr>" by simp
  have p: "parseInt ''2022'' = Some 2022" "parseInt ''2021'' = Some 2021"
    "parseInt ''6'' = Some 6" "parseInt ''11'' = Some 11"
    "parseInt ''1'' = Some 1" "parseInt ''2'' = Some 2"
    by (simp_all add: parse_defs)
  have ys: "getAvailableYears ?dm = [''2022'', ''2021'']"
    by (simp add: dm getAvailableYears_def Set_values_def Array_sort_def numDiff_def p)
  have ms: "getMonthsForYear ?dm ''2022'' = [''6'', ''11'']"
    by (simp add: dm getMonthsForYear_def Set_values_def Array_sort_def numDiff_def p)
  have qs: "getQuestionsForYearMonth ?dm ''2022'' ''6'' = [''1'', ''2'']"
    by (simp add: dm getQuestionsForYearMonth_def Set_values_def Array_sort_def numDiff_def p)
  from st have h: "storeRows shuffledRows DataManager_constructor = (Inr ?items, ?dm)"
    by simp
  note t = catalogue_queries_sorted [OF h, of "''2022''" "''6''"]
  have iy: "inj_on parseInt (set (getAvailableYears ?dm))" by (simp add: ys p)
  have im: "inj_on parseInt (set (getMonthsForYear ?dm ''2022''))" by (simp add: ms p)
  have iq: "inj_on parseInt (set (getQuestionsForYearMonth ?dm ''2022'' ''6''))"
    by (simp add: qs p)
  from t iy have sy: "sorted_wrt (\<lambda>a b. the (parseInt a) > the (parseInt b))
      (getAvailableYears ?dm)" by blast
  from t im have sm: "sorted_wrt (\<lambda>a b. the (parseInt a) < the (parseInt b))
      (getMonthsForYear ?dm ''2022'')" by blast
  from t iq have sq: "sorted_wrt (\<lambda>a b. the (parseInt a) < the (parseInt b))
      (getQuestionsForYearMonth ?dm ''2022'' ''6'')" by blast
  from st have f: "fst (storeRows shuffledRows DataManager_constructor) = Inr ?items" by simp
  from f ys sy ms sm qs sq show ?thesis by blast
qed


end
